theory Spec2Isabelle
  imports Main
begin

section \<open>Text primitives used by the report parser\<close>

text \<open>
  Lines of the raw report are Python \<open>str\<close> values. They are modelled as \<open>string\<close>;
  a \<open>char\<close> stands for a code point below 256. The library functions
  \<open>str.strip\<close>, \<open>str.startswith\<close> and \<open>str.split\<close> (without argument) are written
  out on that fragment.
\<close>

definition is_space :: "char \<Rightarrow> bool" where
  \<comment> \<open>\<open>str.isspace\<close> below code point 256; the regular expression class \<open>\s\<close> is the same set.\<close>
  "is_space c = (of_char c \<in> {9::nat, 10, 11, 12, 13, 28, 29, 30, 31, 32, 133, 160})"

definition is_digit :: "char \<Rightarrow> bool" where
  \<comment> \<open>the regular expression class \<open>\d\<close> below code point 256\<close>
  "is_digit c = (48 \<le> (of_char c :: nat) \<and> (of_char c :: nat) \<le> 57)"

definition newline :: char where
  "newline = CHR 0x0A"

definition strip :: "string \<Rightarrow> string" where
  "strip s = rev (dropWhile is_space (rev (dropWhile is_space s)))"

definition startswith :: "string \<Rightarrow> string \<Rightarrow> bool" where
  "startswith s p = (take (length p) s = p)"

fun split_from :: "string \<Rightarrow> string \<Rightarrow> string list" where
  "split_from cur [] = (if cur = [] then [] else [rev cur])"
| "split_from cur (c # cs) =
     (if is_space c then (if cur = [] then split_from [] cs else rev cur # split_from [] cs)
      else split_from (c # cur) cs)"

definition split_ws :: "string \<Rightarrow> string list" where
  \<comment> \<open>\<open>line.split()\<close>: the maximal runs of non-whitespace characters, in order\<close>
  "split_ws s = split_from [] s"

definition int_of_digits :: "string \<Rightarrow> nat" where
  \<comment> \<open>\<open>int(text)\<close> on a run of decimal digits\<close>
  "int_of_digits ds = foldl (\<lambda>n c. 10 * n + (of_char c - 48)) 0 ds"

subsection \<open>The two regular expressions\<close>

text \<open>
  \<open>re.match(r'\*\*  TIME = (\d+(?:\.\d+)?)\s+(.+)', line)\<close>. The match is anchored at
  the start of the line only. The digit runs are greedy and giving a digit back never helps,
  since the character after a shorter run is a digit, which is neither a dot nor white space.
  The white space run is greedy too; it gives characters back only when nothing follows it,
  so that \<open>(.+)\<close> can take one of its characters that is not a newline. The result is the
  pair of groups: the numeral text and the label.
\<close>

definition match_time :: "string \<Rightarrow> (string \<times> string) option" where
  "match_time line =
     (if \<not> startswith line ''**  TIME = '' then None
      else
        let r0 = drop 11 line;
            ds = takeWhile is_digit r0;
            r1 = dropWhile is_digit r0
        in if ds = [] then None
           else
             let fs = (case r1 of [] \<Rightarrow> [] | c # cs \<Rightarrow>
                         if c = CHR ''.'' then takeWhile is_digit cs else []);
                 num = (if fs = [] then ds else ds @ ''.'' @ fs);
                 r2 = (if fs = [] then r1 else dropWhile is_digit (tl r1));
                 ws = takeWhile is_space r2;
                 r3 = dropWhile is_space r2
             in if ws = [] then None
                else if r3 \<noteq> [] then Some (num, takeWhile (\<lambda>c. c \<noteq> newline) r3)
                else
                  let keep = rev (dropWhile (\<lambda>c. c = newline) (rev (tl ws)))
                  in if keep = [] then None else Some (num, [last keep]))"

text \<open>
  \<open>re.match(r'\*\* K = (\d+), J = (\d+)', line)\<close>, with both groups converted by \<open>int\<close>.
\<close>

definition match_kj :: "string \<Rightarrow> (nat \<times> nat) option" where
  "match_kj line =
     (if \<not> startswith line ''** K = '' then None
      else
        let r0 = drop 7 line;
            ks = takeWhile is_digit r0;
            r1 = dropWhile is_digit r0
        in if ks = [] \<or> \<not> startswith r1 '', J = '' then None
           else
             let js = takeWhile is_digit (drop 6 r1)
             in if js = [] then None
                else Some (int_of_digits ks, int_of_digits js))"

section \<open>Parser state\<close>

text \<open>
  A cell block is the dictionary \<open>{'k': .., 'j': .., 'values': [..]}\<close>. The dictionaries
  are shared: \<open>current_data.copy()\<close> copies the list of references only, so a block that was
  committed can still grow when the scan goes on with the same \<open>current_data\<close>. The model keeps
  the blocks in a store (\<open>heap\<close>, addressed by position) and the lists hold addresses.

  \<open>current_time\<close> is \<open>float\<close> of the numeral text matched by the time pattern; that
  conversion cannot fail on such text and the value is only printed, so the state keeps the
  numeral text itself.
\<close>

record 'a cell =
  cell_k :: nat
  cell_j :: nat
  cell_values :: "'a list"

record time_step =
  step_time :: string
  step_date :: string
  step_data :: "nat list"

datatype message =
    ProcessingTimeStep string string
  | FoundTimeSteps nat
  | GridDimensions nat nat nat nat
  | WarningExpected nat nat nat nat string
  | NotImplementedYet string

record 'a pstate =
  time_values :: "string list"
  time_dates :: "string list"
  pressure_data :: "time_step list"
  current_time :: "string option"
  current_k :: "nat option"
  current_j :: "nat option"
  current_data :: "nat list"
  heap :: "'a cell list"
  printed :: "message list"

definition init_state :: "'a pstate" where
  "init_state = \<lparr>time_values = [], time_dates = [], pressure_data = [],
                 current_time = None, current_k = None, current_j = None,
                 current_data = [], heap = [], printed = []\<rparr>"

definition commit :: "'a pstate \<Rightarrow> 'a pstate" where
  \<comment> \<open>\<open>if current_time is not None and current_data: pressure_data.append({...})\<close>\<close>
  "commit st =
     (case current_time st of
        None \<Rightarrow> st
      | Some t \<Rightarrow>
          if current_data st = [] then st
          else st\<lparr>pressure_data := pressure_data st @
                 [\<lparr>step_time = t,
                   step_date = (if time_dates st \<noteq> [] then last (time_dates st) else []),
                   step_data = current_data st\<rparr>]\<rparr>)"

definition is_data_line :: "string \<Rightarrow> string \<Rightarrow> bool" where
  "is_data_line property line =
     (line \<noteq> [] \<and> \<not> startswith line ''**'' \<and> \<not> startswith line ''RESULTS''
      \<and> \<not> startswith line property)"

definition extend_last :: "'a list \<Rightarrow> 'a pstate \<Rightarrow> 'a pstate" where
  \<comment> \<open>\<open>if current_data and 'values' in current_data[-1]: current_data[-1]['values'].extend(values)\<close>\<close>
  "extend_last vs st =
     (if current_data st = [] then st
      else
        let a = last (current_data st);
            c = heap st ! a
        in st\<lparr>heap := (heap st)[a := c\<lparr>cell_values := cell_values c @ vs\<rparr>]\<rparr>)"

definition process_line ::
  "(string \<Rightarrow> 'a option) \<Rightarrow> string \<Rightarrow> bool \<Rightarrow> 'a pstate \<Rightarrow> string \<Rightarrow> 'a pstate" where
  \<comment> \<open>one iteration of the loop over the file; \<open>to_float\<close> is the builtin \<open>float\<close> on a token,
      \<open>None\<close> where it raises \<open>ValueError\<close>\<close>
  "process_line to_float property show_info st raw =
     (let line = strip raw in
      if startswith line ''**  TIME ='' then
        (let st1 = commit st in
         case match_time line of
           None \<Rightarrow> st1
         | Some (t, d) \<Rightarrow>
             st1\<lparr>current_time := Some t,
                 time_values := time_values st1 @ [t],
                 time_dates := time_dates st1 @ [d],
                 current_data := [],
                 printed := printed st1 @ (if show_info then [ProcessingTimeStep t d] else [])\<rparr>)
      else if startswith line ''** K ='' then
        (case match_kj line of
           None \<Rightarrow> st
         | Some (k, j) \<Rightarrow>
             st\<lparr>current_k := Some k,
                current_j := Some j,
                current_data := current_data st @ [length (heap st)],
                heap := heap st @ [\<lparr>cell_k = k, cell_j = j, cell_values = []\<rparr>]\<rparr>)
      else if is_data_line property line then
        (case those (map to_float (split_ws line)) of
           None \<Rightarrow> st
         | Some vs \<Rightarrow> extend_last vs st)
      else st)"

definition scan :: "(string \<Rightarrow> 'a option) \<Rightarrow> string \<Rightarrow> bool \<Rightarrow> string list \<Rightarrow> 'a pstate" where
  \<comment> \<open>the whole loop, then \<open># Add the last time step\<close>\<close>
  "scan to_float property show_info file_lines =
     commit (foldl (process_line to_float property show_info) init_state file_lines)"

section \<open>The result array\<close>

text \<open>
  \<open>np.zeros((n_i, n_j, n_k, n_time))\<close> is a shape with a value at every index. An integer
  index \<open>i\<close> on an axis of size \<open>n\<close> is valid when \<open>-n \<le> i < n\<close>, and a negative one counts
  from the end; any other index raises \<open>IndexError\<close>.
\<close>

datatype error =
    FileNotFoundError string
  | ValueError
  | IndexError
  | UnboundLocalError

record 'a ndarray =
  shape :: "nat \<times> nat \<times> nat \<times> nat"
  elems :: "nat \<times> nat \<times> nat \<times> nat \<Rightarrow> 'a"

definition zeros :: "nat \<times> nat \<times> nat \<times> nat \<Rightarrow> ('a::zero) ndarray" where
  "zeros s = \<lparr>shape = s, elems = (\<lambda>_. 0)\<rparr>"

definition norm_index :: "nat \<Rightarrow> int \<Rightarrow> nat option" where
  "norm_index n i =
     (if - int n \<le> i \<and> i < int n then Some (nat (if i < 0 then i + int n else i)) else None)"

definition assign_slice ::
  "'a ndarray \<Rightarrow> int \<Rightarrow> int \<Rightarrow> nat \<Rightarrow> 'a list \<Rightarrow> error + 'a ndarray" where
  \<comment> \<open>\<open>sim_results[:, j, k, time_idx] = values\<close>, reached only with \<open>len(values) == n_i\<close>\<close>
  "assign_slice arr j k time_idx vs =
     (case shape arr of (n_i, n_j, n_k, n_time) \<Rightarrow>
        (case (norm_index n_j j, norm_index n_k k, norm_index n_time (int time_idx)) of
           (Some j', Some k', Some t') \<Rightarrow>
             Inr (arr\<lparr>elems := (\<lambda>(i, jj, kk, tt).
                    if i < n_i \<and> jj = j' \<and> kk = k' \<and> tt = t' then vs ! i
                    else elems arr (i, jj, kk, tt))\<rparr>)
         | _ \<Rightarrow> Inl IndexError))"

section \<open>Dimension inference and array assembly\<close>

definition cells_of :: "'a pstate \<Rightarrow> time_step \<Rightarrow> 'a cell list" where
  \<comment> \<open>\<open>time_data['data']\<close>, the blocks the addresses stand for\<close>
  "cells_of st td = map (\<lambda>a. heap st ! a) (step_data td)"

definition committed :: "'a pstate \<Rightarrow> (string \<times> 'a cell list) list" where
  \<comment> \<open>\<open>pressure_data\<close> as the later loops read it: the time and the blocks of every entry\<close>
  "committed st = map (\<lambda>td. (step_time td, cells_of st td)) (pressure_data st)"

fun dims_cell :: "'a cell \<Rightarrow> nat set \<times> nat set \<times> nat \<Rightarrow> nat set \<times> nat set \<times> nat" where
  "dims_cell c (k_values, j_values, i_count) =
     (insert (cell_k c) k_values, insert (cell_j c) j_values,
      if i_count = 0 then length (cell_values c) else i_count)"

definition dims_scan :: "(string \<times> 'a cell list) list \<Rightarrow> nat set \<times> nat set \<times> nat" where
  "dims_scan pd = fold (\<lambda>time_data acc. fold dims_cell (snd time_data) acc) pd ({}, {}, 0)"

text \<open>
  The diagnostics are printed while the loop runs, so what was printed before an assignment
  raises stays printed: the loop hands the messages on in both outcomes.
\<close>

definition fill_cell ::
  "nat \<Rightarrow> nat \<Rightarrow> string \<Rightarrow> 'a cell \<Rightarrow> 'a ndarray \<times> message list
     \<Rightarrow> error \<times> message list + 'a ndarray \<times> message list" where
  "fill_cell n_i time_idx t c acc =
     (let k = int (cell_k c) - 1;
          j = int (cell_j c) - 1
      in if length (cell_values c) = n_i then
           (case assign_slice (fst acc) j k time_idx (cell_values c) of
              Inl e \<Rightarrow> Inl (e, snd acc)
            | Inr arr \<Rightarrow> Inr (arr, snd acc))
         else Inr (fst acc, snd acc @
                [WarningExpected n_i (length (cell_values c)) (nat (k + 1)) (nat (j + 1)) t]))"

fun fill_cells ::
  "nat \<Rightarrow> nat \<Rightarrow> string \<Rightarrow> 'a cell list \<Rightarrow> 'a ndarray \<times> message list
     \<Rightarrow> error \<times> message list + 'a ndarray \<times> message list" where
  "fill_cells n_i time_idx t [] acc = Inr acc"
| "fill_cells n_i time_idx t (c # cs) acc =
     (case fill_cell n_i time_idx t c acc of
        Inl e \<Rightarrow> Inl e
      | Inr acc' \<Rightarrow> fill_cells n_i time_idx t cs acc')"

fun fill_steps ::
  "nat \<Rightarrow> nat \<Rightarrow> (string \<times> 'a cell list) list \<Rightarrow> 'a ndarray \<times> message list
     \<Rightarrow> error \<times> message list + 'a ndarray \<times> message list" where
  \<comment> \<open>\<open>for time_idx, time_data in enumerate(pressure_data)\<close>, the counter passed along\<close>
  "fill_steps n_i time_idx [] acc = Inr acc"
| "fill_steps n_i time_idx (time_data # rest) acc =
     (case fill_cells n_i time_idx (fst time_data) (snd time_data) acc of
        Inl e \<Rightarrow> Inl e
      | Inr acc' \<Rightarrow> fill_steps n_i (Suc time_idx) rest acc')"

section \<open>The three stages\<close>

text \<open>
  The file system is read through an environment: the tests \<open>Path.is_dir\<close>,
  \<open>Path.is_file\<close> and \<open>os.path.exists\<close>, the lines that iterating over the opened file
  yields, and the platform's path arithmetic (\<open>str(Path(p))\<close>, \<open>Path(p) / name\<close>,
  \<open>os.path.join\<close>); a \<open>Path\<close> object is represented by its text. What a stage does to the
  outside world is returned as a trace of events in program order, next to the value or the
  exception it ends with. The operating system is taken to carry out \<open>mkdir\<close>, \<open>open\<close>,
  \<open>np.save\<close> and \<open>os.system\<close> without an error of its own.
\<close>

record env =
  is_dir :: "string \<Rightarrow> bool"
  is_file :: "string \<Rightarrow> bool"
  path_exists :: "string \<Rightarrow> bool"
  read_lines :: "string \<Rightarrow> string list"
  path_str :: "string \<Rightarrow> string"
  path_div :: "string \<Rightarrow> string \<Rightarrow> string"
  os_path_join :: "string \<Rightarrow> string \<Rightarrow> string"

datatype 'a event =
    is_Mkdir: Mkdir string
  | is_WriteFile: WriteFile string "string list"
  | is_System: System string
  | is_Print: Print message
  | is_NpSave: NpSave string "'a ndarray"

definition CMG_rwo2npy ::
  "env \<Rightarrow> (string \<Rightarrow> 'a option) \<Rightarrow> string \<Rightarrow> string \<Rightarrow> string \<Rightarrow> bool \<Rightarrow> string \<Rightarrow> bool
     \<Rightarrow> ('a::zero) event list \<times> (error + 'a ndarray)" where
  "CMG_rwo2npy e to_float rwo_folder_path case_name property is_save save_folder_path show_info =
     (let rwo_file_path = os_path_join e rwo_folder_path (case_name @ ''_'' @ property @ ''.rwo'')
      in if \<not> path_exists e rwo_file_path then ([], Inl (FileNotFoundError (''File not found: '' @ rwo_file_path)))
         else
           let save_folder = path_str e save_folder_path;
               st = scan to_float property show_info (read_lines e rwo_file_path);
               ev1 = [Mkdir save_folder] @ map Print (printed st) @
                     (if show_info then [Print (FoundTimeSteps (length (time_values st)))] else []);
               pd = committed st
           in case dims_scan pd of (k_values, j_values, i_count) \<Rightarrow>
                if k_values = {} \<or> j_values = {} then (ev1, Inl ValueError)
                else
                  let n_k = Max k_values;
                      n_j = Max j_values;
                      n_i = i_count;
                      n_time = length (time_values st);
                      ev2 = ev1 @ (if show_info then [Print (GridDimensions n_i n_j n_k n_time)]
                                   else [])
                  in case fill_steps n_i 0 pd (zeros (n_i, n_j, n_k, n_time), []) of
                       Inl (err, warnings) \<Rightarrow> (ev2 @ map Print warnings, Inl err)
                     | Inr (sim_results, warnings) \<Rightarrow>
                         (ev2 @ map Print warnings @
                            (if is_save
                             then [NpSave (path_div e save_folder
                                           (case_name @ ''_'' @ property @ ''.npy'')) sim_results]
                             else []),
                          Inr sim_results))"

subsection \<open>Writing the request file and running the report tool\<close>

definition tab :: string where
  "tab = [CHR 0x09]"

definition squote :: string where
  "squote = [CHR 0x27]"

definition dquote :: string where
  "dquote = [CHR 0x22]"

definition backslash :: string where
  "backslash = [CHR 0x5C]"

fun digits_of :: "nat \<Rightarrow> string" where
  "digits_of n =
     (if n < 10 then [char_of (48 + n)] else digits_of (n div 10) @ [char_of (48 + n mod 10)])"

declare digits_of.simps [simp del]

definition str_int :: "int \<Rightarrow> string" where
  \<comment> \<open>\<open>str\<close> of a Python integer, as an f-string renders it\<close>
  "str_int i = (if i < 0 then ''-'' @ digits_of (nat (- i)) else digits_of (nat i))"

definition generate_CMG_rwd ::
  "env \<Rightarrow> string \<Rightarrow> string \<Rightarrow> string \<Rightarrow> bool \<Rightarrow> int \<Rightarrow> 'a event list \<times> (error + unit)" where
  "generate_CMG_rwd e sr3_folder_path case_name property is_gmc_property precision =
     (let sr3_folder = path_str e sr3_folder_path
      in if \<not> is_dir e sr3_folder
         then ([], Inl (FileNotFoundError (''Folder not found: '' @ sr3_folder)))
         else
           let case_file = (if is_gmc_property
                            then path_div e sr3_folder (case_name @ ''.gmch.sr3'')
                            else path_div e sr3_folder (case_name @ ''.sr3''))
           in if \<not> is_file e case_file
              then ([], Inl (FileNotFoundError (''Case not found: '' @ case_file)))
              else
                let rwo_folder = path_div e sr3_folder ''rwo'';
                    rwd_file = path_div e sr3_folder (case_name @ ''.rwd'')
                in ([Mkdir rwo_folder,
                     WriteFile rwd_file
                       [(if is_gmc_property
                         then ''*FILES '' @ tab @ '' '' @ squote @ case_name @ ''.gmch.sr3'' @ squote
                              @ '' '' @ [newline]
                         else ''*FILES '' @ tab @ '' '' @ squote @ case_name @ ''.sr3'' @ squote
                              @ '' '' @ [newline]),
                        ''*PRECISION '' @ tab @ '' '' @ str_int precision @ '' '' @ [newline],
                        ''*OUTPUT '' @ tab @ '' '' @ squote @ ''rwo'' @ backslash @ case_name
                          @ ''_'' @ property @ ''.rwo'' @ squote @ '' '' @ [newline],
                        ''*PROPERTY-FOR '' @ tab @ '' '' @ squote @ property @ squote @ '' ''
                          @ tab @ '' *ALL-TIMES '' @ [newline]]],
                    Inr ()))"

definition report_exe :: string where
  "report_exe = dquote @ ''C:'' @ backslash @ ''Program Files'' @ backslash @ ''CMG'' @ backslash
     @ ''RESULTS'' @ backslash @ ''2024.20'' @ backslash @ ''Win_x64'' @ backslash @ ''exe''
     @ backslash @ ''Report.exe'' @ dquote"

text \<open>
  \<open>exe_path\<close> and \<open>cd_path\<close> are assigned in one branch only; a local that was never
  assigned is \<open>None\<close> here, and reading it raises \<open>UnboundLocalError\<close>. The command line is
  built before the \<open>try\<close>, so that error is not turned into \<open>ValueError\<close>.
\<close>

definition run_CMG_rwd_report ::
  "env \<Rightarrow> string \<Rightarrow> string \<Rightarrow> string \<Rightarrow> 'a event list \<times> (error + unit)" where
  "run_CMG_rwd_report e rwd_folder_path case_name cmg_version =
     (let rwd_folder = path_str e rwd_folder_path
      in if \<not> is_dir e rwd_folder
         then ([], Inl (FileNotFoundError (''Folder not found: '' @ rwd_folder)))
         else
           let rwd_file = path_div e rwd_folder (case_name @ ''.rwd'')
           in if \<not> is_file e rwd_file
              then ([], Inl (FileNotFoundError (''rwd file not found: '' @ rwd_file)))
              else
                let supported = (cmg_version = ''ese-ts2win-v2024.20'');
                    exe_path = (if supported then Some report_exe else None);
                    cd_path = (if supported then Some rwd_folder else None);
                    ev = (if supported then [] else [Print (NotImplementedYet cmg_version)])
                in case cd_path of
                     None \<Rightarrow> (ev, Inl UnboundLocalError)
                   | Some cd \<Rightarrow>
                       (case exe_path of
                          None \<Rightarrow> (ev, Inl UnboundLocalError)
                        | Some exe \<Rightarrow>
                            (ev @ [System (''cd '' @ cd @ ''  & '' @ exe @ '' -f '' @ case_name
                                           @ ''.rwd -o '' @ case_name)],
                             Inr ())))"

section \<open>A concrete environment for evaluation\<close>

definition plain_float :: "string \<Rightarrow> int option" where
  \<comment> \<open>\<open>float\<close> on the tokens that are runs of decimal digits; it refuses every other token\<close>
  "plain_float s = (if s \<noteq> [] \<and> list_all is_digit s then Some (int (int_of_digits s)) else None)"

definition demo_env :: "string list \<Rightarrow> env" where
  \<comment> \<open>one folder \<open>sim\<close> holding \<open>case.sr3\<close>, \<open>case.rwd\<close> and the report \<open>case_PRES.rwo\<close>
      with the given lines\<close>
  "demo_env ls =
     \<lparr>is_dir = (\<lambda>p. p = ''sim''),
      is_file = (\<lambda>p. p \<in> set [''sim/case.sr3'', ''sim/case.rwd'', ''sim/case_PRES.rwo'']),
      path_exists = (\<lambda>p. p \<in> set [''sim'', ''sim/case.sr3'', ''sim/case.rwd'', ''sim/case_PRES.rwo'']),
      read_lines = (\<lambda>p. if p = ''sim/case_PRES.rwo'' then ls else []),
      path_str = (\<lambda>p. p),
      path_div = (\<lambda>p name. p @ ''/'' @ name),
      os_path_join = (\<lambda>p name. p @ ''/'' @ name)\<rparr>"

section \<open>Observations and sample reports used in the statements\<close>

definition report_lines :: "env \<Rightarrow> string \<Rightarrow> string \<Rightarrow> string \<Rightarrow> string list" where
  \<comment> \<open>the lines of the report file the parser stage opens\<close>
  "report_lines e rwo_folder_path case_name property =
     read_lines e (os_path_join e rwo_folder_path (case_name @ ''_'' @ property @ ''.rwo''))"

definition parsed ::
  "env \<Rightarrow> (string \<Rightarrow> 'a option) \<Rightarrow> string \<Rightarrow> string \<Rightarrow> string \<Rightarrow> bool \<Rightarrow> 'a pstate" where
  \<comment> \<open>the parser state after the scan of that file\<close>
  "parsed e to_float rwo_folder_path case_name property show_info =
     scan to_float property show_info (report_lines e rwo_folder_path case_name property)"

definition committed_cells :: "'a pstate \<Rightarrow> 'a cell list" where
  \<comment> \<open>every committed cell block, in the order the two nested loops visit them\<close>
  "committed_cells st = concat (map snd (committed st))"

definition result_shape ::
  "'a event list \<times> (error + 'a ndarray) \<Rightarrow> (nat \<times> nat \<times> nat \<times> nat) option" where
  "result_shape r = (case snd r of Inl _ \<Rightarrow> None | Inr a \<Rightarrow> Some (shape a))"

definition result_error :: "'a event list \<times> (error + 'a ndarray) \<Rightarrow> error option" where
  "result_error r = (case snd r of Inl err \<Rightarrow> Some err | Inr _ \<Rightarrow> None)"

definition steps_bounded :: "'a pstate \<Rightarrow> bool" where
  \<comment> \<open>while a time step is open, fewer steps are committed than were opened\<close>
  "steps_bounded st =
     (case current_time st of
        None \<Rightarrow> pressure_data st = []
      | Some _ \<Rightarrow> length (pressure_data st) < length (time_values st))"

definition report_empty_step :: "string list" where
  \<comment> \<open>two time markers; the first step has no cell block\<close>
  "report_empty_step = [''**  TIME = 0 a'', ''**  TIME = 1 b'', ''** K = 1, J = 1'', ''5'']"

definition report_no_header :: "string list" where
  "report_no_header = [''**  TIME = 0 a'', ''5'']"

definition report_empty_first_block :: "string list" where
  \<comment> \<open>the first cell block of the step has no value\<close>
  "report_empty_first_block =
     [''**  TIME = 0 a'', ''** K = 1, J = 1'', ''** K = 2, J = 1'', ''5 6'']"

definition read_slice :: "'a ndarray \<Rightarrow> int \<Rightarrow> int \<Rightarrow> nat \<Rightarrow> error + 'a list" where
  \<comment> \<open>the value of the expression \<open>arr[:, j, k, time_idx]\<close>\<close>
  "read_slice arr j k time_idx =
     (case shape arr of (n_i, n_j, n_k, n_time) \<Rightarrow>
        (case (norm_index n_j j, norm_index n_k k, norm_index n_time (int time_idx)) of
           (Some j', Some k', Some t') \<Rightarrow> Inr (map (\<lambda>i. elems arr (i, j', k', t')) [0..<n_i])
         | _ \<Rightarrow> Inl IndexError))"

definition result_slice ::
  "'a event list \<times> (error + 'a ndarray) \<Rightarrow> int \<Rightarrow> int \<Rightarrow> nat \<Rightarrow> error + 'a list" where
  "result_slice r j k time_idx =
     (case snd r of Inl err \<Rightarrow> Inl err | Inr arr \<Rightarrow> read_slice arr j k time_idx)"

definition slot :: "nat \<Rightarrow> nat \<Rightarrow> 'a cell \<Rightarrow> nat option \<times> nat option" where
  \<comment> \<open>where the indices \<open>j - 1\<close> and \<open>k - 1\<close> of a block land on axes of sizes \<open>n_j\<close> and \<open>n_k\<close>\<close>
  "slot n_j n_k c = (norm_index n_j (int (cell_j c) - 1), norm_index n_k (int (cell_k c) - 1))"

definition warning_of :: "nat \<Rightarrow> string \<Rightarrow> 'a cell \<Rightarrow> message" where
  \<comment> \<open>the diagnostic printed for a block, with \<open>K={k+1}\<close> and \<open>J={j+1}\<close> read back\<close>
  "warning_of n_i tm c = WarningExpected n_i (length (cell_values c)) (cell_k c) (cell_j c) tm"

definition report_two_blocks :: "string list" where
  "report_two_blocks =
     [''**  TIME = 0 a'', ''** K = 1, J = 1'', ''5 6'', ''** K = 2, J = 1'', ''7 8'']"

definition report_repeated_header :: "string list" where
  \<comment> \<open>two blocks of one time step carry the same indices\<close>
  "report_repeated_header =
     [''**  TIME = 0 a'', ''** K = 1, J = 1'', ''5'', ''** K = 1, J = 1'', ''6'']"

definition report_short_block :: "string list" where
  \<comment> \<open>the second block has no value while \<open>n_i\<close> is one\<close>
  "report_short_block = [''**  TIME = 0 a'', ''** K = 1, J = 1'', ''5'', ''** K = 2, J = 1'']"

definition report_short_repeat :: "string list" where
  \<comment> \<open>a block without value repeats the indices of a full block\<close>
  "report_short_repeat = [''**  TIME = 0 a'', ''** K = 1, J = 1'', ''5'', ''** K = 1, J = 1'']"

definition inferred_dims ::
  "env \<Rightarrow> (string \<Rightarrow> 'a option) \<Rightarrow> string \<Rightarrow> string \<Rightarrow> string \<Rightarrow> bool
     \<Rightarrow> nat \<times> nat \<times> nat \<times> nat" where
  \<comment> \<open>\<open>(n_i, n_j, n_k, n_time)\<close> as the stage computes them once a block was committed\<close>
  "inferred_dims e to_float rwo_folder_path case_name property show_info =
     (case dims_scan (committed (parsed e to_float rwo_folder_path case_name property show_info)) of
        (k_values, j_values, i_count) \<Rightarrow>
          (i_count, Max j_values, Max k_values,
           length (time_values (parsed e to_float rwo_folder_path case_name property show_info))))"

definition messages_of ::
  "error \<times> message list + 'a ndarray \<times> message list \<Rightarrow> message list" where
  \<comment> \<open>what the fill loop has printed when it ends, on either outcome\<close>
  "messages_of r = (case r of Inl bad \<Rightarrow> snd bad | Inr acc \<Rightarrow> snd acc)"

definition report_recommitted :: "string list" where
  \<comment> \<open>a marker line the time pattern does not match commits the step and keeps it open; the
      end of the input commits it again, at a time index the array does not have\<close>
  "report_recommitted =
     [''**  TIME = 0 a'', ''** K = 1, J = 1'', ''5'', ''** K = 2, J = 1'', ''**  TIME = soon'']"

definition live :: "'a pstate \<Rightarrow> nat set" where
  \<comment> \<open>the addresses that can still reach the result: the blocks of the committed steps and,
      once a time step is open, those of \<open>current_data\<close>\<close>
  "live st = (if current_time st = None then {} else set (current_data st))
             \<union> (\<Union>td \<in> set (pressure_data st). set (step_data td))"

definition well_addressed :: "'a pstate \<Rightarrow> bool" where
  \<comment> \<open>every address held by the state is in the store, and nothing is committed before a
      time step was opened\<close>
  "well_addressed st =
     ((\<forall>a \<in> set (current_data st). a < length (heap st))
      \<and> (\<forall>td \<in> set (pressure_data st). \<forall>a \<in> set (step_data td). a < length (heap st))
      \<and> (current_time st = None \<longrightarrow> pressure_data st = []))"

definition same_visible :: "'a pstate \<Rightarrow> 'a pstate \<Rightarrow> bool" where
  \<comment> \<open>two states that differ at most in blocks no live address points to\<close>
  "same_visible st st' =
     (time_values st' = time_values st \<and> time_dates st' = time_dates st
      \<and> pressure_data st' = pressure_data st \<and> current_time st' = current_time st
      \<and> current_k st' = current_k st \<and> current_j st' = current_j st
      \<and> current_data st' = current_data st \<and> printed st' = printed st
      \<and> length (heap st') = length (heap st)
      \<and> (\<forall>a \<in> live st. heap st' ! a = heap st ! a))"

definition report_stray_values :: "string list" where
  \<comment> \<open>numbers before any time marker, and numbers between a time marker and its first header\<close>
  "report_stray_values =
     [''** K = 3, J = 3'', ''9 9 9'', ''**  TIME = 0 a'', ''3'', ''** K = 1, J = 1'', ''5'']"

section \<open>Missing inputs and unsupported versions\<close>

text \<open>
  Claim C5. Each of the three stages answers a missing input folder or a missing input file
  with \<open>FileNotFoundError\<close>, and the trace of events is empty at that point: no directory was
  created, no file written, no process launched. The parser stage tests the path of the
  report file only; a report file cannot exist in a folder that does not, which is the
  premise of the last conjunct.
\<close>

theorem not_found_is_eager:
  "(\<not> is_dir e (path_str e folder) \<longrightarrow>
      (generate_CMG_rwd e folder case_name property gmc precision :: 'x event list \<times> _)
        = ([], Inl (FileNotFoundError (''Folder not found: '' @ path_str e folder))))
   \<and> (is_dir e (path_str e folder)
        \<and> \<not> is_file e (path_div e (path_str e folder)
                          (case_name @ (if gmc then ''.gmch.sr3'' else ''.sr3''))) \<longrightarrow>
      (generate_CMG_rwd e folder case_name property gmc precision :: 'x event list \<times> _)
        = ([], Inl (FileNotFoundError (''Case not found: ''
              @ path_div e (path_str e folder)
                  (case_name @ (if gmc then ''.gmch.sr3'' else ''.sr3''))))))
   \<and> (\<not> is_dir e (path_str e folder) \<longrightarrow>
      (run_CMG_rwd_report e folder case_name cmg_version :: 'y event list \<times> _)
        = ([], Inl (FileNotFoundError (''Folder not found: '' @ path_str e folder))))
   \<and> (is_dir e (path_str e folder)
        \<and> \<not> is_file e (path_div e (path_str e folder) (case_name @ ''.rwd'')) \<longrightarrow>
      (run_CMG_rwd_report e folder case_name cmg_version :: 'y event list \<times> _)
        = ([], Inl (FileNotFoundError (''rwd file not found: ''
              @ path_div e (path_str e folder) (case_name @ ''.rwd'')))))
   \<and> (\<not> path_exists e (os_path_join e folder (case_name @ ''_'' @ property @ ''.rwo'')) \<longrightarrow>
      (CMG_rwo2npy e to_float folder case_name property is_save save_folder show_info
         :: ('z::zero) event list \<times> _)
        = ([], Inl (FileNotFoundError (''File not found: ''
              @ os_path_join e folder (case_name @ ''_'' @ property @ ''.rwo'')))))
   \<and> ((path_exists e (os_path_join e folder (case_name @ ''_'' @ property @ ''.rwo''))
          \<longrightarrow> path_exists e folder)
        \<and> \<not> path_exists e folder \<longrightarrow>
      (CMG_rwo2npy e to_float folder case_name property is_save save_folder show_info
         :: ('z::zero) event list \<times> _)
        = ([], Inl (FileNotFoundError (''File not found: ''
              @ os_path_join e folder (case_name @ ''_'' @ property @ ''.rwo'')))))"
  by (auto simp add: generate_CMG_rwd_def run_CMG_rwd_report_def CMG_rwo2npy_def Let_def)

theorem not_found_is_eager_witness:
  "(generate_CMG_rwd (demo_env []) ''gone'' ''case'' ''PRES'' False 4 :: int event list \<times> _)
     = ([], Inl (FileNotFoundError ''Folder not found: gone''))
   \<and> (run_CMG_rwd_report (demo_env []) ''gone'' ''case'' ''ese-ts2win-v2024.20''
         :: int event list \<times> _)
     = ([], Inl (FileNotFoundError ''Folder not found: gone''))
   \<and> CMG_rwo2npy (demo_env []) plain_float ''gone'' ''case'' ''PRES'' True ''results'' True
     = ([], Inl (FileNotFoundError ''File not found: gone/case_PRES.rwo''))
   \<and> (generate_CMG_rwd (demo_env []) ''sim'' ''other'' ''PRES'' True 4 :: int event list \<times> _)
     = ([], Inl (FileNotFoundError ''Case not found: sim/other.gmch.sr3''))
   \<and> (run_CMG_rwd_report (demo_env []) ''sim'' ''other'' ''ese-ts2win-v2024.20''
         :: int event list \<times> _)
     = ([], Inl (FileNotFoundError ''rwd file not found: sim/other.rwd''))
   \<and> CMG_rwo2npy (demo_env []) plain_float ''sim'' ''other'' ''PRES'' True ''results'' True
     = ([], Inl (FileNotFoundError ''File not found: sim/other_PRES.rwo''))"
  using not_found_is_eager [of "demo_env []" "''gone''" "''case''" "''PRES''" False 4
          "''ese-ts2win-v2024.20''" plain_float True "''results''" True,
          where ?'x = int and ?'y = int]
        not_found_is_eager [of "demo_env []" "''sim''" "''other''" "''PRES''" True 4
          "''ese-ts2win-v2024.20''" plain_float True "''results''" True,
          where ?'x = int and ?'y = int]
  by (simp add: demo_env_def)

text \<open>
  Claim C6. With the folder and the request file present and a version text other than the
  supported one, the stage prints its notice and then reads \<open>cd_path\<close> and \<open>exe_path\<close>,
  which were never assigned: it ends with \<open>UnboundLocalError\<close>. No process was launched.
\<close>

theorem unsupported_version_raises:
  "(run_CMG_rwd_report (demo_env []) ''sim'' ''case'' ''ese-ts2win-v2023.10''
      :: int event list \<times> _)
     = ([Print (NotImplementedYet ''ese-ts2win-v2023.10'')], Inl UnboundLocalError)"
  by (simp add: run_CMG_rwd_report_def demo_env_def Let_def)

section \<open>Facts about the scan\<close>

lemma commit_fields [simp]:
  "time_values (commit st) = time_values st"
  "time_dates (commit st) = time_dates st"
  "current_time (commit st) = current_time st"
  "current_data (commit st) = current_data st"
  "heap (commit st) = heap st"
  "printed (commit st) = printed st"
  by (simp_all add: commit_def split: option.splits)

lemma commit_empty [simp]: "current_data st = [] \<Longrightarrow> commit st = st"
  by (simp add: commit_def split: option.splits)

lemma extend_last_fields [simp]:
  "time_values (extend_last vs st) = time_values st"
  "time_dates (extend_last vs st) = time_dates st"
  "current_time (extend_last vs st) = current_time st"
  "current_data (extend_last vs st) = current_data st"
  "pressure_data (extend_last vs st) = pressure_data st"
  "printed (extend_last vs st) = printed st"
  "length (heap (extend_last vs st)) = length (heap st)"
  by (simp_all add: extend_last_def Let_def)

lemma extend_last_empty [simp]: "current_data st = [] \<Longrightarrow> extend_last vs st = st"
  by (simp add: extend_last_def)

lemma startswith_append: "startswith l (p @ q) \<Longrightarrow> startswith l p"
proof -
  assume "startswith l (p @ q)"
  then have h: "take (length p + length q) l = p @ q" by (simp add: startswith_def)
  have "take (length p) l = take (length p) (take (length p + length q) l)" by simp
  also have "\<dots> = p" by (simp only: h) simp
  finally show ?thesis by (simp add: startswith_def)
qed

lemma match_time_prefix: "match_time l = Some p \<Longrightarrow> startswith l ''**  TIME =''"
proof -
  assume "match_time l = Some p"
  then have "startswith l (''**  TIME ='' @ '' '')"
    by (auto simp: match_time_def split: if_splits)
  then show ?thesis by (rule startswith_append)
qed

lemma time_values_step:
  "time_values (process_line tf pr si st l)
     = time_values st @ (case match_time (strip l) of None \<Rightarrow> [] | Some (t, d) \<Rightarrow> [t])"
  by (auto simp: process_line_def Let_def split: option.splits dest: match_time_prefix)

lemma time_values_foldl:
  "length (time_values (foldl (process_line tf pr si) st ls))
     = length (time_values st) + length (filter (\<lambda>l. match_time (strip l) \<noteq> None) ls)"
  by (induction ls arbitrary: st) (auto simp: time_values_step split: option.splits)

lemma time_values_scan:
  "length (time_values (scan tf pr si ls)) = length (filter (\<lambda>l. match_time (strip l) \<noteq> None) ls)"
  by (simp add: scan_def time_values_foldl init_state_def)

lemma assign_slice_shape: "assign_slice arr j k t vs = Inr arr' \<Longrightarrow> shape arr' = shape arr"
  by (auto simp: assign_slice_def split: prod.splits option.splits)

lemma fill_cell_shape: "fill_cell n t tm c acc = Inr acc' \<Longrightarrow> shape (fst acc') = shape (fst acc)"
  by (auto simp: fill_cell_def Let_def split: if_splits sum.splits dest: assign_slice_shape)

lemma fill_cells_shape: "fill_cells n t tm cs acc = Inr acc' \<Longrightarrow> shape (fst acc') = shape (fst acc)"
proof (induction cs arbitrary: acc)
  case Nil then show ?case by simp
next
  case (Cons c cs)
  then show ?case by (auto split: sum.splits dest!: fill_cell_shape)
qed

lemma fill_steps_shape: "fill_steps n t pd acc = Inr acc' \<Longrightarrow> shape (fst acc') = shape (fst acc)"
proof (induction pd arbitrary: acc t)
  case Nil then show ?case by simp
next
  case (Cons s pd)
  then show ?case by (auto split: sum.splits dest!: fill_cells_shape)
qed

lemma result_shape_dims:
  assumes "result_shape (CMG_rwo2npy e tf folder cn pr sv sf si) = Some (n_i, n_j, n_k, n_t)"
  defines "st \<equiv> scan tf pr si (read_lines e (os_path_join e folder (cn @ ''_'' @ pr @ ''.rwo'')))"
  shows "dims_scan (committed st) = (ks, js, ic) \<Longrightarrow>
         n_i = ic \<and> n_j = Max js \<and> n_k = Max ks \<and> n_t = length (time_values st) \<and> ks \<noteq> {} \<and> js \<noteq> {}"
  using assms(1) unfolding st_def result_shape_def CMG_rwo2npy_def Let_def
  by (auto simp: zeros_def split: if_splits prod.splits sum.splits dest!: fill_steps_shape)

lemma no_header_step:
  "match_kj (strip l) = None \<Longrightarrow> current_data st = [] \<Longrightarrow> pressure_data st = [] \<Longrightarrow>
   current_data (process_line tf pr si st l) = [] \<and> pressure_data (process_line tf pr si st l) = []"
  by (auto simp: process_line_def Let_def split: option.splits)

lemma no_header_foldl:
  "\<forall>l \<in> set ls. match_kj (strip l) = None \<Longrightarrow> current_data st = [] \<Longrightarrow> pressure_data st = [] \<Longrightarrow>
   current_data (foldl (process_line tf pr si) st ls) = []
   \<and> pressure_data (foldl (process_line tf pr si) st ls) = []"
proof (induction ls arbitrary: st)
  case Nil then show ?case by simp
next
  case (Cons l ls)
  have "current_data (process_line tf pr si st l) = [] \<and> pressure_data (process_line tf pr si st l) = []"
    using Cons.prems by (intro no_header_step) auto
  then show ?case using Cons.IH Cons.prems(1) by simp
qed

lemma no_header_scan:
  assumes "\<forall>l \<in> set ls. match_kj (strip l) = None"
  shows "committed (scan tf pr si ls) = []"
proof -
  have "current_data (foldl (process_line tf pr si) init_state ls) = []
      \<and> pressure_data (foldl (process_line tf pr si) init_state ls) = []"
    using assms by (intro no_header_foldl) (auto simp: init_state_def)
  then show ?thesis by (simp add: scan_def committed_def)
qed

lemma steps_bounded_step:
  assumes "startswith (strip l) ''**  TIME ='' \<longrightarrow> match_time (strip l) \<noteq> None"
    and "steps_bounded st"
  shows "steps_bounded (process_line tf pr si st l)"
  using assms
  by (auto simp: steps_bounded_def process_line_def Let_def commit_def
           split: option.splits if_splits)

lemma steps_bounded_foldl:
  assumes "\<forall>l \<in> set ls. startswith (strip l) ''**  TIME ='' \<longrightarrow> match_time (strip l) \<noteq> None"
    and "steps_bounded st"
  shows "steps_bounded (foldl (process_line tf pr si) st ls)"
  using assms
proof (induction ls arbitrary: st)
  case Nil then show ?case by simp
next
  case (Cons l ls)
  have "steps_bounded (process_line tf pr si st l)"
    using Cons.prems by (intro steps_bounded_step) auto
  then show ?case using Cons.IH [of "process_line tf pr si st l"] Cons.prems(1) by simp
qed

lemma committed_le_opened:
  assumes "\<forall>l \<in> set ls. startswith (strip l) ''**  TIME ='' \<longrightarrow> match_time (strip l) \<noteq> None"
  shows "length (pressure_data (scan tf pr si ls)) \<le> length (time_values (scan tf pr si ls))"
proof -
  let ?st = "foldl (process_line tf pr si) init_state ls"
  have "steps_bounded ?st"
    using assms by (intro steps_bounded_foldl) (auto simp: steps_bounded_def init_state_def)
  then show ?thesis
    by (auto simp: steps_bounded_def scan_def commit_def split: option.splits)
qed

lemma wf_filter:
  assumes "\<forall>l \<in> set ls. startswith (strip l) ''**  TIME ='' \<longrightarrow> match_time (strip l) \<noteq> None"
  shows "filter (\<lambda>l. match_time (strip l) \<noteq> None) ls = filter (\<lambda>l. startswith (strip l) ''**  TIME ='') ls"
  using assms by (intro filter_cong) (auto dest: match_time_prefix)

lemma fold_dims_cell:
  "fold dims_cell cs (ks, js, ic)
     = (cell_k ` set cs \<union> ks, cell_j ` set cs \<union> js,
        if ic \<noteq> 0 then ic
        else (case find (\<lambda>c. cell_values c \<noteq> []) cs of None \<Rightarrow> 0 | Some c \<Rightarrow> length (cell_values c)))"
  by (induction cs arbitrary: ks js ic) auto

lemma fold_nested:
  "fold (\<lambda>time_data acc. fold f (snd time_data) acc) pd acc = fold f (concat (map snd pd)) acc"
  by (induction pd arbitrary: acc) auto

lemma dims_scan_eq:
  "dims_scan pd
     = (cell_k ` set (concat (map snd pd)), cell_j ` set (concat (map snd pd)),
        case find (\<lambda>c. cell_values c \<noteq> []) (concat (map snd pd)) of
          None \<Rightarrow> 0 | Some c \<Rightarrow> length (cell_values c))"
  by (simp add: dims_scan_def fold_nested fold_dims_cell)

lemma result_shape_eq:
  assumes "result_shape (CMG_rwo2npy e tf folder cn pr sv sf si) = Some (n_i, n_j, n_k, n_t)"
  shows "n_i = (case find (\<lambda>c. cell_values c \<noteq> []) (committed_cells (parsed e tf folder cn pr si)) of
                  None \<Rightarrow> 0 | Some c \<Rightarrow> length (cell_values c))"
    and "n_j = Max (cell_j ` set (committed_cells (parsed e tf folder cn pr si)))"
    and "n_k = Max (cell_k ` set (committed_cells (parsed e tf folder cn pr si)))"
    and "n_t = length (time_values (parsed e tf folder cn pr si))"
    and "committed_cells (parsed e tf folder cn pr si) \<noteq> []"
  using result_shape_dims [OF assms dims_scan_eq]
  by (auto simp: parsed_def report_lines_def committed_cells_def)

section \<open>A report without cell block\<close>

text \<open>
  Claim C9. When the report file exists and none of its lines is a cell-block header, nothing
  is ever committed, the sets of k and j indices stay empty and \<open>max\<close> raises
  \<open>ValueError\<close>: the stage ends with that exception instead of an array. The empty file and a
  file of time markers and numbers are two such reports.
\<close>

theorem no_cell_block_raises:
  assumes "path_exists e (os_path_join e folder (case_name @ ''_'' @ property @ ''.rwo''))"
    and "\<forall>l \<in> set (report_lines e folder case_name property). match_kj (strip l) = None"
  shows "snd (CMG_rwo2npy e to_float folder case_name property is_save save_folder show_info)
           = Inl ValueError"
proof -
  have "committed (scan to_float property show_info
          (read_lines e (os_path_join e folder (case_name @ ''_'' @ property @ ''.rwo'')))) = []"
    using assms(2) unfolding report_lines_def by (rule no_header_scan)
  then show ?thesis
    using assms(1) by (simp add: CMG_rwo2npy_def Let_def dims_scan_def)
qed

theorem no_cell_block_raises_witness:
  "path_exists (demo_env report_no_header) (os_path_join (demo_env report_no_header) ''sim'' (''case'' @ ''_'' @ ''PRES'' @ ''.rwo''))
   \<and> snd (CMG_rwo2npy (demo_env report_no_header) plain_float ''sim'' ''case'' ''PRES'' False ''results'' False) = Inl ValueError
   \<and> snd (CMG_rwo2npy (demo_env []) plain_float ''sim'' ''case'' ''PRES'' False ''results'' False) = Inl ValueError"
proof -
  let ?e = "demo_env report_no_header"
  have a: "path_exists ?e (os_path_join ?e ''sim'' (''case'' @ ''_'' @ ''PRES'' @ ''.rwo''))"
    by code_simp
  have b: "\<forall>l \<in> set (report_lines ?e ''sim'' ''case'' ''PRES''). match_kj (strip l) = None"
    by code_simp
  have a0: "path_exists (demo_env []) (os_path_join (demo_env []) ''sim'' (''case'' @ ''_'' @ ''PRES'' @ ''.rwo''))"
    by code_simp
  have b0: "\<forall>l \<in> set (report_lines (demo_env []) ''sim'' ''case'' ''PRES''). match_kj (strip l) = None"
    by code_simp
  show ?thesis
    using a b no_cell_block_raises [OF a b, of plain_float False "''results''" False]
      no_cell_block_raises [OF a0 b0, of plain_float False "''results''" False]
    by simp
qed

section \<open>The inferred dimensions\<close>

text \<open>
  Claim C2, as the code has it. A time step that reaches the next marker or the end of the
  input without a cell block is not committed, but its marker was appended to
  \<open>time_values\<close>, whose length is \<open>n_time\<close>. So the fourth axis counts the time steps that
  were opened, that is the lines the time pattern matches, whether or not they were
  committed; when every time-marker line matches the pattern, the number of committed steps
  is at most that count.
\<close>

theorem n_time_counts_opened_steps:
  assumes "result_shape (CMG_rwo2npy e to_float folder case_name property is_save save_folder show_info)
             = Some (n_i, n_j, n_k, n_time)"
  shows "n_time = length (filter (\<lambda>l. match_time (strip l) \<noteq> None)
                            (report_lines e folder case_name property))
       \<and> ((\<forall>l \<in> set (report_lines e folder case_name property).
              startswith (strip l) ''**  TIME ='' \<longrightarrow> match_time (strip l) \<noteq> None)
            \<longrightarrow> length (committed (parsed e to_float folder case_name property show_info)) \<le> n_time)"
  using result_shape_eq(4) [OF assms] committed_le_opened [of "report_lines e folder case_name property" to_float property show_info]
  by (simp add: parsed_def time_values_scan committed_def)


theorem n_time_counts_opened_steps_witness:
  "result_shape (CMG_rwo2npy (demo_env report_empty_step) plain_float ''sim'' ''case'' ''PRES''
                   False ''results'' False) = Some (1, 1, 1, 2)
   \<and> 2 = length (filter (\<lambda>l. match_time (strip l) \<noteq> None)
                    (report_lines (demo_env report_empty_step) ''sim'' ''case'' ''PRES''))
   \<and> length (committed (parsed (demo_env report_empty_step) plain_float ''sim'' ''case'' ''PRES''
                          False)) \<le> 2"
proof -
  have a: "result_shape (CMG_rwo2npy (demo_env report_empty_step) plain_float ''sim'' ''case''
                           ''PRES'' False ''results'' False) = Some (1, 1, 1, 2)"
    by code_simp
  have b: "\<forall>l \<in> set (report_lines (demo_env report_empty_step) ''sim'' ''case'' ''PRES'').
             startswith (strip l) ''**  TIME ='' \<longrightarrow> match_time (strip l) \<noteq> None"
    by code_simp
  show ?thesis
    using a b n_time_counts_opened_steps [OF a] by simp
qed

text \<open>
  The claim as written fails on the report with an empty first step: two steps were opened,
  one was committed, and the fourth axis has size two.
\<close>

theorem n_time_exceeds_committed_steps:
  "result_shape (CMG_rwo2npy (demo_env report_empty_step) plain_float ''sim'' ''case'' ''PRES''
                   False ''results'' False) = Some (1, 1, 1, 2)
   \<and> length (pressure_data (parsed (demo_env report_empty_step) plain_float ''sim'' ''case''
                               ''PRES'' False)) = 1"
  by code_simp

text \<open>
  Claim C3. A report is well formed when each of its time-marker lines (the lines that start
  with the marker prefix once stripped) matches the time pattern. For such a report, when an
  array is returned, the size of its fourth axis is the number of time-marker lines, each
  counted where it is met.
\<close>

theorem n_time_counts_time_markers:
  assumes "result_shape (CMG_rwo2npy e to_float folder case_name property is_save save_folder show_info)
             = Some (n_i, n_j, n_k, n_time)"
    and "\<forall>l \<in> set (report_lines e folder case_name property).
           startswith (strip l) ''**  TIME ='' \<longrightarrow> match_time (strip l) \<noteq> None"
  shows "n_time = length (filter (\<lambda>l. startswith (strip l) ''**  TIME ='')
                            (report_lines e folder case_name property))"
  using result_shape_eq(4) [OF assms(1)] wf_filter [OF assms(2)]
  by (simp add: parsed_def time_values_scan)


theorem n_time_counts_time_markers_witness:
  "result_shape (CMG_rwo2npy (demo_env report_empty_step) plain_float ''sim'' ''case'' ''PRES''
                   True ''results'' True) = Some (1, 1, 1, 2)
   \<and> 2 = length (filter (\<lambda>l. startswith (strip l) ''**  TIME ='')
                    (report_lines (demo_env report_empty_step) ''sim'' ''case'' ''PRES''))"
proof -
  have a: "result_shape (CMG_rwo2npy (demo_env report_empty_step) plain_float ''sim'' ''case''
                           ''PRES'' True ''results'' True) = Some (1, 1, 1, 2)"
    by code_simp
  have b: "\<forall>l \<in> set (report_lines (demo_env report_empty_step) ''sim'' ''case'' ''PRES'').
             startswith (strip l) ''**  TIME ='' \<longrightarrow> match_time (strip l) \<noteq> None"
    by code_simp
  show ?thesis
    using a b n_time_counts_time_markers [OF a b] by simp
qed

text \<open>
  Claim C8, as the code has it. \<open>i_count\<close> is overwritten as long as it is zero, so a block
  without values does not settle it: \<open>n_i\<close> is the length of the first committed cell block
  whose value sequence is not empty, and zero when there is none. When the first committed
  block has values, \<open>n_i\<close> is its length.
\<close>

theorem first_nonempty_block_gives_n_i:
  assumes "result_shape (CMG_rwo2npy e to_float folder case_name property is_save save_folder show_info)
             = Some (n_i, n_j, n_k, n_time)"
  shows "n_i = (case find (\<lambda>c. cell_values c \<noteq> [])
                       (committed_cells (parsed e to_float folder case_name property show_info)) of
                  None \<Rightarrow> 0 | Some c \<Rightarrow> length (cell_values c))
       \<and> (cell_values (hd (committed_cells (parsed e to_float folder case_name property show_info))) \<noteq> []
            \<longrightarrow> n_i = length (cell_values
                   (hd (committed_cells (parsed e to_float folder case_name property show_info)))))"
proof -
  let ?cs = "committed_cells (parsed e to_float folder case_name property show_info)"
  have ne: "?cs \<noteq> []" by (rule result_shape_eq(5) [OF assms])
  have a: "n_i = (case find (\<lambda>c. cell_values c \<noteq> []) ?cs of
                  None \<Rightarrow> 0 | Some c \<Rightarrow> length (cell_values c))"
    by (rule result_shape_eq(1) [OF assms])
  have "cell_values (hd ?cs) \<noteq> [] \<Longrightarrow> find (\<lambda>c. cell_values c \<noteq> []) ?cs = Some (hd ?cs)"
    using ne by (cases ?cs) auto
  with a show ?thesis by auto
qed


theorem first_nonempty_block_gives_n_i_witness:
  "result_shape (CMG_rwo2npy (demo_env report_empty_step) plain_float ''sim'' ''case'' ''PRES''
                   False ''results'' False) = Some (1, 1, 1, 2)
   \<and> cell_values (hd (committed_cells (parsed (demo_env report_empty_step) plain_float ''sim''
                                          ''case'' ''PRES'' False))) \<noteq> []
   \<and> 1 = length (cell_values (hd (committed_cells (parsed (demo_env report_empty_step)
                                     plain_float ''sim'' ''case'' ''PRES'' False))))"
proof -
  have a: "result_shape (CMG_rwo2npy (demo_env report_empty_step) plain_float ''sim'' ''case''
                           ''PRES'' False ''results'' False) = Some (1, 1, 1, 2)"
    by code_simp
  have b: "cell_values (hd (committed_cells (parsed (demo_env report_empty_step) plain_float
                                               ''sim'' ''case'' ''PRES'' False))) \<noteq> []"
    by code_simp
  show ?thesis
    using a b first_nonempty_block_gives_n_i [OF a] by simp
qed

text \<open>
  The claim as written fails when the first block met has no value: the first block has
  length zero and the first axis has size two.
\<close>

theorem empty_first_block_does_not_fix_n_i:
  "result_shape (CMG_rwo2npy (demo_env report_empty_first_block) plain_float ''sim'' ''case''
                   ''PRES'' False ''results'' False) = Some (2, 1, 2, 1)
   \<and> length (cell_values (hd (committed_cells (parsed (demo_env report_empty_first_block)
                                  plain_float ''sim'' ''case'' ''PRES'' False)))) = 0"
  by code_simp

section \<open>What the parser stage does to the file system\<close>

lemma filter_prints [simp]:
  "filter is_NpSave (map Print ms) = []"
  "filter is_WriteFile (map Print ms) = []"
  "filter is_Mkdir (map Print ms) = []"
  by (simp_all add: filter_map o_def)

lemma CMG_cases:
  fixes e to_float folder case_name property is_save save_folder show_info
  defines "r \<equiv> CMG_rwo2npy e to_float folder case_name property is_save save_folder show_info"
    and "st \<equiv> parsed e to_float folder case_name property show_info"
  defines "ev1 \<equiv> [Mkdir (path_str e save_folder)] @ map Print (printed st) @
                     (if show_info then [Print (FoundTimeSteps (length (time_values st)))] else [])"
  obtains
    (missing) "\<not> path_exists e (os_path_join e folder (case_name @ ''_'' @ property @ ''.rwo''))"
      "r = ([], Inl (FileNotFoundError (''File not found: ''
                @ os_path_join e folder (case_name @ ''_'' @ property @ ''.rwo''))))"
  | (empty) ks js ic where
      "path_exists e (os_path_join e folder (case_name @ ''_'' @ property @ ''.rwo''))"
      "dims_scan (committed st) = (ks, js, ic)" "ks = {} \<or> js = {}"
      "r = (ev1, Inl ValueError)"
  | (index) ks js ic err warnings where
      "path_exists e (os_path_join e folder (case_name @ ''_'' @ property @ ''.rwo''))"
      "dims_scan (committed st) = (ks, js, ic)" "ks \<noteq> {}" "js \<noteq> {}"
      "fill_steps ic 0 (committed st) (zeros (ic, Max js, Max ks, length (time_values st)), [])
         = Inl (err, warnings)"
      "r = (ev1 @ (if show_info
                   then [Print (GridDimensions ic (Max js) (Max ks) (length (time_values st)))]
                   else [])
              @ map Print warnings, Inl err)"
  | (returns) ks js ic sim_results warnings where
      "path_exists e (os_path_join e folder (case_name @ ''_'' @ property @ ''.rwo''))"
      "dims_scan (committed st) = (ks, js, ic)" "ks \<noteq> {}" "js \<noteq> {}"
      "fill_steps ic 0 (committed st) (zeros (ic, Max js, Max ks, length (time_values st)), [])
         = Inr (sim_results, warnings)"
      "r = (ev1 @ (if show_info
                   then [Print (GridDimensions ic (Max js) (Max ks) (length (time_values st)))]
                   else [])
              @ map Print warnings
              @ (if is_save
                 then [NpSave (path_div e (path_str e save_folder)
                                 (case_name @ ''_'' @ property @ ''.npy'')) sim_results]
                 else []),
            Inr sim_results)"
proof (cases "path_exists e (os_path_join e folder (case_name @ ''_'' @ property @ ''.rwo''))")
  case False
  then have "r = ([], Inl (FileNotFoundError (''File not found: ''
                @ os_path_join e folder (case_name @ ''_'' @ property @ ''.rwo''))))"
    by (simp add: r_def CMG_rwo2npy_def)
  with False show ?thesis by (rule missing)
next
  case ex: True
  obtain ks js ic where d: "dims_scan (committed st) = (ks, js, ic)"
    by (cases "dims_scan (committed st)") auto
  show ?thesis
  proof (cases "ks = {} \<or> js = {}")
    case True
    have "r = (ev1, Inl ValueError)"
      using ex d True unfolding r_def CMG_rwo2npy_def st_def parsed_def report_lines_def ev1_def
      by (simp add: Let_def)
    with ex d True show ?thesis by (rule empty)
  next
    case ne: False
    show ?thesis
    proof (cases "fill_steps ic 0 (committed st)
                    (zeros (ic, Max js, Max ks, length (time_values st)), [])")
      case (Inl bad)
      obtain err warnings where bad: "bad = (err, warnings)" by (cases bad) auto
      have "r = (ev1 @ (if show_info
                   then [Print (GridDimensions ic (Max js) (Max ks) (length (time_values st)))]
                   else [])
              @ map Print warnings, Inl err)"
        using ex d ne Inl bad unfolding r_def CMG_rwo2npy_def st_def parsed_def report_lines_def ev1_def
        by (simp add: Let_def)
      with ex d ne Inl bad show ?thesis by (intro index) auto
    next
      case (Inr acc)
      obtain sim_results warnings where acc: "acc = (sim_results, warnings)" by (cases acc) auto
      have "r = (ev1 @ (if show_info
                   then [Print (GridDimensions ic (Max js) (Max ks) (length (time_values st)))]
                   else [])
              @ map Print warnings
              @ (if is_save
                 then [NpSave (path_div e (path_str e save_folder)
                                 (case_name @ ''_'' @ property @ ''.npy'')) sim_results]
                 else []),
            Inr sim_results)"
        using ex d ne Inr acc unfolding r_def CMG_rwo2npy_def st_def parsed_def report_lines_def ev1_def
        by (simp add: Let_def)
      with ex d ne Inr acc show ?thesis by (intro returns) auto
    qed
  qed
qed

text \<open>
  Claim C7, as the code has it. The array file is written only on request: without
  \<open>is_save\<close> the trace holds no \<open>np.save\<close> and no other file write, and with it the
  returned array is saved once, after a successful assembly. The destination directory is
  another matter: \<open>mkdir\<close> runs right after the test for the report file, before the scan
  and whatever \<open>is_save\<close> says.
\<close>

theorem array_file_only_on_request:
  "(\<not> is_save \<longrightarrow>
      filter is_NpSave (fst (CMG_rwo2npy e to_float folder case_name property is_save save_folder show_info)) = [])
   \<and> filter is_WriteFile (fst (CMG_rwo2npy e to_float folder case_name property is_save save_folder show_info)) = []
   \<and> (is_save \<longrightarrow>
      filter is_NpSave (fst (CMG_rwo2npy e to_float folder case_name property is_save save_folder show_info))
        = (case snd (CMG_rwo2npy e to_float folder case_name property is_save save_folder show_info) of
             Inl _ \<Rightarrow> []
           | Inr sim_results \<Rightarrow>
               [NpSave (path_div e (path_str e save_folder) (case_name @ ''_'' @ property @ ''.npy''))
                  sim_results]))
   \<and> (path_exists e (os_path_join e folder (case_name @ ''_'' @ property @ ''.rwo'')) \<longrightarrow>
      filter is_Mkdir (fst (CMG_rwo2npy e to_float folder case_name property is_save save_folder show_info))
        = [Mkdir (path_str e save_folder)])"
  by (cases is_save;
      cases rule: CMG_cases [of e folder case_name property to_float is_save save_folder show_info];
      simp)


theorem array_file_only_on_request_witness:
  "filter is_NpSave (fst (CMG_rwo2npy (demo_env report_empty_step) plain_float ''sim'' ''case''
                            ''PRES'' False ''results'' False)) = []
   \<and> filter is_Mkdir (fst (CMG_rwo2npy (demo_env report_empty_step) plain_float ''sim'' ''case''
                              ''PRES'' False ''results'' False))
       = [Mkdir (path_str (demo_env report_empty_step) ''results'')]"
proof -
  have a: "path_exists (demo_env report_empty_step)
             (os_path_join (demo_env report_empty_step) ''sim''
                (''case'' @ ''_'' @ ''PRES'' @ ''.rwo''))"
    by code_simp
  show ?thesis
    using a array_file_only_on_request [of False "demo_env report_empty_step" plain_float
                "''sim''" "''case''" "''PRES''" "''results''" False]
    by blast
qed

text \<open>
  The claim as written fails on any report that exists: persistence is not requested and the
  first event of the trace is the creation of the directory.
\<close>

theorem directory_created_without_request:
  "is_Mkdir (hd (fst (CMG_rwo2npy (demo_env report_empty_step) plain_float ''sim'' ''case''
                        ''PRES'' False ''results'' False)))"
  by code_simp

section \<open>Array assembly\<close>

lemma norm_index_nat: "norm_index n (int t) = Some t' \<longleftrightarrow> t' = t \<and> t < n"
  by (auto simp: norm_index_def)

lemma assign_slice_Inr:
  assumes "assign_slice arr j k t vs = Inr arr'" and "shape arr = (n_i, n_j, n_k, n_t)"
  obtains j' k' where "norm_index n_j j = Some j'" "norm_index n_k k = Some k'" "t < n_t"
    "shape arr' = (n_i, n_j, n_k, n_t)"
    "\<And>i jj kk tt. elems arr' (i, jj, kk, tt)
        = (if i < n_i \<and> jj = j' \<and> kk = k' \<and> tt = t then vs ! i else elems arr (i, jj, kk, tt))"
  using assms
  by (auto simp: assign_slice_def norm_index_nat split: option.splits)

lemma fill_cell_match:
  assumes "fill_cell n_i t tm c acc = Inr acc'" and "shape (fst acc) = (n_i, n_j, n_k, n_t)"
    and "length (cell_values c) = n_i"
  obtains j' k' where "slot n_j n_k c = (Some j', Some k')" "t < n_t"
    "shape (fst acc') = (n_i, n_j, n_k, n_t)" "snd acc' = snd acc"
    "\<And>i jj kk tt. elems (fst acc') (i, jj, kk, tt)
        = (if i < n_i \<and> jj = j' \<and> kk = k' \<and> tt = t then cell_values c ! i
           else elems (fst acc) (i, jj, kk, tt))"
proof -
  from assms(1,3) obtain arr' where a: "assign_slice (fst acc) (int (cell_j c) - 1)
      (int (cell_k c) - 1) t (cell_values c) = Inr arr'" and b: "acc' = (arr', snd acc)"
    by (auto simp: fill_cell_def Let_def split: sum.splits)
  from a assms(2) show ?thesis
    by (rule assign_slice_Inr) (rule that, auto simp: slot_def b)
qed

lemma fill_cell_mismatch:
  "length (cell_values c) \<noteq> n_i \<Longrightarrow>
   fill_cell n_i t tm c acc
     = Inr (fst acc, snd acc @ [WarningExpected n_i (length (cell_values c)) (cell_k c) (cell_j c) tm])"
  by (simp add: fill_cell_def Let_def)

lemma fill_cells_frame:
  assumes "fill_cells n_i t tm cs acc = Inr acc'" and "shape (fst acc) = (n_i, n_j, n_k, n_t)"
    and "tt \<noteq> t \<or> (\<forall>c \<in> set cs. length (cell_values c) = n_i \<longrightarrow> slot n_j n_k c \<noteq> (Some jj, Some kk))"
  shows "elems (fst acc') (i, jj, kk, tt) = elems (fst acc) (i, jj, kk, tt)"
  using assms
proof (induction cs arbitrary: acc)
  case Nil then show ?case by simp
next
  case (Cons c cs)
  from Cons.prems(1) obtain acc1 where s1: "fill_cell n_i t tm c acc = Inr acc1"
    and s2: "fill_cells n_i t tm cs acc1 = Inr acc'"
    by (auto split: sum.splits)
  have sh: "shape (fst acc1) = (n_i, n_j, n_k, n_t)"
    using fill_cell_shape [OF s1] Cons.prems(2) by simp
  have "elems (fst acc1) (i, jj, kk, tt) = elems (fst acc) (i, jj, kk, tt)"
  proof (cases "length (cell_values c) = n_i")
    case True
    from s1 Cons.prems(2) True show ?thesis
    proof (rule fill_cell_match)
      fix j' k'
      assume "slot n_j n_k c = (Some j', Some k')"
        and "\<And>i jj kk tt. elems (fst acc1) (i, jj, kk, tt)
        = (if i < n_i \<and> jj = j' \<and> kk = k' \<and> tt = t then cell_values c ! i
           else elems (fst acc) (i, jj, kk, tt))"
      then show ?thesis using Cons.prems(3) True by auto
    qed
  next
    case False
    then show ?thesis using s1 by (auto simp: fill_cell_mismatch)
  qed
  moreover have "elems (fst acc') (i, jj, kk, tt) = elems (fst acc1) (i, jj, kk, tt)"
    using Cons.IH [OF s2 sh] Cons.prems(3) by auto
  ultimately show ?case by simp
qed

lemma fill_cells_last_write:
  assumes "fill_cells n_i t tm cs acc = Inr acc'" and "shape (fst acc) = (n_i, n_j, n_k, n_t)"
    and "p < length cs" and "length (cell_values (cs ! p)) = n_i"
    and "\<forall>c \<in> set (drop (Suc p) cs). length (cell_values c) = n_i
           \<longrightarrow> slot n_j n_k c \<noteq> slot n_j n_k (cs ! p)"
  shows "\<exists>j' k'. slot n_j n_k (cs ! p) = (Some j', Some k') \<and> t < n_t
           \<and> (\<forall>i < n_i. elems (fst acc') (i, j', k', t) = cell_values (cs ! p) ! i)"
  using assms
proof (induction cs arbitrary: acc p)
  case Nil then show ?case by simp
next
  case (Cons c cs)
  from Cons.prems(1) obtain acc1 where s1: "fill_cell n_i t tm c acc = Inr acc1"
    and s2: "fill_cells n_i t tm cs acc1 = Inr acc'"
    by (auto split: sum.splits)
  have sh: "shape (fst acc1) = (n_i, n_j, n_k, n_t)"
    using fill_cell_shape [OF s1] Cons.prems(2) by simp
  show ?case
  proof (cases p)
    case 0
    then have len: "length (cell_values c) = n_i" using Cons.prems(4) by simp
    from s1 Cons.prems(2) len show ?thesis
    proof (rule fill_cell_match)
      fix j' k'
      assume sl: "slot n_j n_k c = (Some j', Some k')" and tn: "t < n_t"
        and el: "\<And>i jj kk tt. elems (fst acc1) (i, jj, kk, tt)
        = (if i < n_i \<and> jj = j' \<and> kk = k' \<and> tt = t then cell_values c ! i
           else elems (fst acc) (i, jj, kk, tt))"
      have later: "\<forall>c' \<in> set cs. length (cell_values c') = n_i
                     \<longrightarrow> slot n_j n_k c' \<noteq> (Some j', Some k')"
        using Cons.prems(5) 0 sl by simp
      have "\<And>i. elems (fst acc') (i, j', k', t) = elems (fst acc1) (i, j', k', t)"
        using fill_cells_frame [OF s2 sh] later by blast
      then show ?thesis using sl tn el 0 by simp
    qed
  next
    case (Suc p')
    then show ?thesis
      using Cons.IH [OF s2 sh, of p'] Cons.prems(3-5) by simp
  qed
qed

lemma fill_steps_frame:
  assumes "fill_steps n_i t0 pd acc = Inr acc'" and "shape (fst acc) = (n_i, n_j, n_k, n_t)"
    and "tt < t0 \<or> t0 + length pd \<le> tt
         \<or> (\<forall>c \<in> set (snd (pd ! (tt - t0))). length (cell_values c) = n_i
               \<longrightarrow> slot n_j n_k c \<noteq> (Some jj, Some kk))"
  shows "elems (fst acc') (i, jj, kk, tt) = elems (fst acc) (i, jj, kk, tt)"
  using assms
proof (induction pd arbitrary: acc t0)
  case Nil then show ?case by simp
next
  case (Cons td rest)
  from Cons.prems(1) obtain acc1 where s1: "fill_cells n_i t0 (fst td) (snd td) acc = Inr acc1"
    and s2: "fill_steps n_i (Suc t0) rest acc1 = Inr acc'"
    by (auto split: sum.splits)
  have sh: "shape (fst acc1) = (n_i, n_j, n_k, n_t)"
    using fill_cells_shape [OF s1] Cons.prems(2) by simp
  have c1: "tt \<noteq> t0 \<or> (\<forall>c \<in> set (snd td). length (cell_values c) = n_i
               \<longrightarrow> slot n_j n_k c \<noteq> (Some jj, Some kk))"
    using Cons.prems(3) by (cases "tt = t0") auto
  have c2: "tt < Suc t0 \<or> Suc t0 + length rest \<le> tt
         \<or> (\<forall>c \<in> set (snd (rest ! (tt - Suc t0))). length (cell_values c) = n_i
               \<longrightarrow> slot n_j n_k c \<noteq> (Some jj, Some kk))"
  proof (cases "tt \<le> t0 \<or> Suc t0 + length rest \<le> tt")
    case True then show ?thesis by auto
  next
    case False
    then have "tt - t0 = Suc (tt - Suc t0)" by arith
    then have "(td # rest) ! (tt - t0) = rest ! (tt - Suc t0)" by simp
    then show ?thesis using Cons.prems(3) False by auto
  qed
  have "elems (fst acc1) (i, jj, kk, tt) = elems (fst acc) (i, jj, kk, tt)"
    using fill_cells_frame [OF s1 Cons.prems(2) c1] .
  moreover have "elems (fst acc') (i, jj, kk, tt) = elems (fst acc1) (i, jj, kk, tt)"
    using Cons.IH [OF s2 sh c2] .
  ultimately show ?case by simp
qed

lemma fill_steps_last_write:
  assumes "fill_steps n_i t0 pd acc = Inr acc'" and "shape (fst acc) = (n_i, n_j, n_k, n_t)"
    and "s < length pd" and "p < length (snd (pd ! s))"
    and "length (cell_values (snd (pd ! s) ! p)) = n_i"
    and "\<forall>c \<in> set (drop (Suc p) (snd (pd ! s))). length (cell_values c) = n_i
           \<longrightarrow> slot n_j n_k c \<noteq> slot n_j n_k (snd (pd ! s) ! p)"
  shows "\<exists>j' k'. slot n_j n_k (snd (pd ! s) ! p) = (Some j', Some k') \<and> t0 + s < n_t
           \<and> (\<forall>i < n_i. elems (fst acc') (i, j', k', t0 + s) = cell_values (snd (pd ! s) ! p) ! i)"
  using assms
proof (induction pd arbitrary: acc t0 s)
  case Nil then show ?case by simp
next
  case (Cons td rest)
  from Cons.prems(1) obtain acc1 where s1: "fill_cells n_i t0 (fst td) (snd td) acc = Inr acc1"
    and s2: "fill_steps n_i (Suc t0) rest acc1 = Inr acc'"
    by (auto split: sum.splits)
  have sh: "shape (fst acc1) = (n_i, n_j, n_k, n_t)"
    using fill_cells_shape [OF s1] Cons.prems(2) by simp
  show ?case
  proof (cases s)
    case 0
    from fill_cells_last_write [OF s1 Cons.prems(2), of p] Cons.prems(4-6) 0
    obtain j' k' where sl: "slot n_j n_k (snd td ! p) = (Some j', Some k')" and tn: "t0 < n_t"
      and el: "\<forall>i < n_i. elems (fst acc1) (i, j', k', t0) = cell_values (snd td ! p) ! i"
      by auto
    have "\<And>i. elems (fst acc') (i, j', k', t0) = elems (fst acc1) (i, j', k', t0)"
      by (rule fill_steps_frame [OF s2 sh]) simp
    then show ?thesis using sl tn el 0 by simp
  next
    case (Suc s')
    then show ?thesis
      using Cons.IH [OF s2 sh, of s'] Cons.prems(3-6) by simp
  qed
qed

lemma fill_cells_warnings:
  assumes "fill_cells n_i t tm cs acc = Inr acc'"
  shows "set (snd acc) \<subseteq> set (snd acc')
       \<and> (\<forall>c \<in> set cs. length (cell_values c) \<noteq> n_i \<longrightarrow> warning_of n_i tm c \<in> set (snd acc'))"
  using assms
proof (induction cs arbitrary: acc)
  case Nil then show ?case by simp
next
  case (Cons c cs)
  from Cons.prems(1) obtain acc1 where s1: "fill_cell n_i t tm c acc = Inr acc1"
    and s2: "fill_cells n_i t tm cs acc1 = Inr acc'"
    by (auto split: sum.splits)
  have a: "set (snd acc) \<subseteq> set (snd acc1)
           \<and> (length (cell_values c) \<noteq> n_i \<longrightarrow> warning_of n_i tm c \<in> set (snd acc1))"
    using s1 by (auto simp: fill_cell_def Let_def warning_of_def split: if_splits sum.splits)
  show ?case using Cons.IH [OF s2] a by auto
qed

lemma fill_steps_warnings:
  assumes "fill_steps n_i t0 pd acc = Inr acc'"
  shows "set (snd acc) \<subseteq> set (snd acc')
       \<and> (\<forall>td \<in> set pd. \<forall>c \<in> set (snd td). length (cell_values c) \<noteq> n_i
             \<longrightarrow> warning_of n_i (fst td) c \<in> set (snd acc'))"
  using assms
proof (induction pd arbitrary: acc t0)
  case Nil then show ?case by simp
next
  case (Cons td rest)
  from Cons.prems(1) obtain acc1 where s1: "fill_cells n_i t0 (fst td) (snd td) acc = Inr acc1"
    and s2: "fill_steps n_i (Suc t0) rest acc1 = Inr acc'"
    by (auto split: sum.splits)
  show ?case using Cons.IH [OF s2] fill_cells_warnings [OF s1] by auto
qed

lemma CMG_returns:
  assumes "result_shape (CMG_rwo2npy e tf folder cn pr sv sf si) = Some (n_i, n_j, n_k, n_t)"
  obtains arr ws where
    "snd (CMG_rwo2npy e tf folder cn pr sv sf si) = Inr arr"
    "fill_steps n_i 0 (committed (parsed e tf folder cn pr si)) (zeros (n_i, n_j, n_k, n_t), [])
       = Inr (arr, ws)"
    "shape arr = (n_i, n_j, n_k, n_t)"
    "set (map Print ws) \<subseteq> set (fst (CMG_rwo2npy e tf folder cn pr sv sf si))"
proof (cases rule: CMG_cases [of e folder cn pr tf sv sf si])
  case missing
  then show ?thesis using assms by (simp add: result_shape_def)
next
  case (empty ks js ic)
  then show ?thesis using assms by (simp add: result_shape_def)
next
  case (index ks js ic err warnings)
  then show ?thesis using assms by (simp add: result_shape_def)
next
  case (returns ks js ic sim_results warnings)
  have sh: "shape sim_results = (ic, Max js, Max ks, length (time_values (parsed e tf folder cn pr si)))"
    using fill_steps_shape [OF returns(5)] by (simp add: zeros_def)
  with assms returns(6) have eq: "ic = n_i" "Max js = n_j" "Max ks = n_k"
    "length (time_values (parsed e tf folder cn pr si)) = n_t"
    by (simp_all add: result_shape_def)
  show ?thesis
  proof (rule that [of sim_results warnings])
    show "snd (CMG_rwo2npy e tf folder cn pr sv sf si) = Inr sim_results"
      using returns(6) by simp
    show "fill_steps n_i 0 (committed (parsed e tf folder cn pr si)) (zeros (n_i, n_j, n_k, n_t), [])
       = Inr (sim_results, warnings)"
      using returns(5) eq by simp
    show "shape sim_results = (n_i, n_j, n_k, n_t)" using sh eq by simp
    show "set (map Print warnings) \<subseteq> set (fst (CMG_rwo2npy e tf folder cn pr sv sf si))"
      using returns(6) by auto
  qed
qed

lemma norm_index_int: "t < n \<Longrightarrow> norm_index n (int t) = Some t"
  by (simp add: norm_index_def)

lemma read_slice_written:
  assumes "shape arr = (n_i, n_j, n_k, n_t)"
    and "norm_index n_j j = Some j'" and "norm_index n_k k = Some k'" and "t < n_t"
    and "length vs = n_i" and "\<forall>i < n_i. elems arr (i, j', k', t) = vs ! i"
  shows "read_slice arr j k t = Inr vs"
proof -
  have "map (\<lambda>i. elems arr (i, j', k', t)) [0..<n_i] = map (\<lambda>i. vs ! i) [0..<n_i]"
    using assms(6) by simp
  also have "\<dots> = vs" unfolding assms(5) [symmetric] by (rule map_nth)
  finally show ?thesis using assms(1-4) by (simp add: read_slice_def norm_index_int)
qed

text \<open>
  Claim C1, as the code has it. The blocks of a time step are written in order, so a later
  block that addresses the same slice replaces what an earlier one wrote. For a committed
  block whose length is \<open>n_i\<close> and that no later block of its time step of matching length
  overwrites, the slice \<open>[:, j-1, k-1, time_idx]\<close> of the returned array holds its values in
  order; \<open>time_idx\<close> is the position of the time step in commit order.
\<close>

theorem matching_block_fills_slice:
  assumes "result_shape (CMG_rwo2npy e to_float folder case_name property is_save save_folder show_info)
             = Some (n_i, n_j, n_k, n_time)"
    and "t < length (committed (parsed e to_float folder case_name property show_info))"
    and "p < length (snd (committed (parsed e to_float folder case_name property show_info) ! t))"
    and "c = snd (committed (parsed e to_float folder case_name property show_info) ! t) ! p"
    and "length (cell_values c) = n_i"
    and "\<forall>c' \<in> set (drop (Suc p)
                  (snd (committed (parsed e to_float folder case_name property show_info) ! t))).
           length (cell_values c') = n_i \<longrightarrow> slot n_j n_k c' \<noteq> slot n_j n_k c"
  shows "result_slice (CMG_rwo2npy e to_float folder case_name property is_save save_folder show_info)
           (int (cell_j c) - 1) (int (cell_k c) - 1) t = Inr (cell_values c)"
proof -
  let ?pd = "committed (parsed e to_float folder case_name property show_info)"
  from assms(1) obtain arr ws where
    r: "snd (CMG_rwo2npy e to_float folder case_name property is_save save_folder show_info) = Inr arr"
    and f: "fill_steps n_i 0 ?pd (zeros (n_i, n_j, n_k, n_time), []) = Inr (arr, ws)"
    and sh: "shape arr = (n_i, n_j, n_k, n_time)"
    by (rule CMG_returns)
  have z: "shape (fst (zeros (n_i, n_j, n_k, n_time) :: 'a ndarray, [] :: message list))
             = (n_i, n_j, n_k, n_time)"
    by (simp add: zeros_def)
  from fill_steps_last_write [OF f z assms(2) assms(3)] assms(4-6)
  obtain j' k' where sl: "slot n_j n_k c = (Some j', Some k')" and tn: "t < n_time"
    and el: "\<forall>i < n_i. elems arr (i, j', k', t) = cell_values c ! i"
    by auto
  have "read_slice arr (int (cell_j c) - 1) (int (cell_k c) - 1) t = Inr (cell_values c)"
    using sh _ _ tn assms(5) el
    by (rule read_slice_written) (use sl in \<open>simp_all add: slot_def\<close>)
  then show ?thesis by (simp add: result_slice_def r)
qed


theorem matching_block_fills_slice_witness:
  "result_slice (CMG_rwo2npy (demo_env report_two_blocks) plain_float ''sim'' ''case'' ''PRES''
                   False ''results'' False) 0 0 0 = Inr [5, 6]
   \<and> result_slice (CMG_rwo2npy (demo_env report_two_blocks) plain_float ''sim'' ''case'' ''PRES''
                   False ''results'' False) 0 1 0 = Inr [7, 8]"
proof -
  let ?e = "demo_env report_two_blocks"
  let ?pd = "committed (parsed ?e plain_float ''sim'' ''case'' ''PRES'' False)"
  have a: "result_shape (CMG_rwo2npy ?e plain_float ''sim'' ''case'' ''PRES'' False ''results'' False)
             = Some (2, 1, 2, 1)"
    by code_simp
  have b: "0 < length ?pd" by code_simp
  have c0: "0 < length (snd (?pd ! 0))" by code_simp
  have c1: "1 < length (snd (?pd ! 0))" by code_simp
  have d0: "\<lparr>cell_k = 1, cell_j = 1, cell_values = [5, 6]\<rparr> = snd (?pd ! 0) ! 0" by code_simp
  have d1: "\<lparr>cell_k = 2, cell_j = 1, cell_values = [7, 8]\<rparr> = snd (?pd ! 0) ! 1" by code_simp
  have e0: "length (cell_values \<lparr>cell_k = 1, cell_j = 1, cell_values = [5, 6 :: int]\<rparr>) = 2" by simp
  have e1: "length (cell_values \<lparr>cell_k = 2, cell_j = 1, cell_values = [7, 8 :: int]\<rparr>) = 2" by simp
  have f0: "\<forall>c' \<in> set (drop (Suc 0) (snd (?pd ! 0))).
              length (cell_values c') = 2
              \<longrightarrow> slot 1 2 c' \<noteq> slot 1 2 \<lparr>cell_k = 1, cell_j = 1, cell_values = [5, 6]\<rparr>"
    by code_simp
  have f1: "\<forall>c' \<in> set (drop (Suc 1) (snd (?pd ! 0))).
              length (cell_values c') = 2
              \<longrightarrow> slot 1 2 c' \<noteq> slot 1 2 \<lparr>cell_k = 2, cell_j = 1, cell_values = [7, 8]\<rparr>"
    by code_simp
  show ?thesis
    using matching_block_fills_slice [OF a b c0 d0 e0 f0]
          matching_block_fills_slice [OF a b c1 d1 e1 f1]
    by simp
qed

text \<open>
  The claim as written fails when a header is repeated within a time step: the first block
  has the values \<open>[5]\<close> and length \<open>n_i\<close>, and its slice holds \<open>[6]\<close>.
\<close>

theorem later_block_overwrites_slice:
  "result_shape (CMG_rwo2npy (demo_env report_repeated_header) plain_float ''sim'' ''case''
                   ''PRES'' False ''results'' False) = Some (1, 1, 1, 1)
   \<and> committed_cells (parsed (demo_env report_repeated_header) plain_float ''sim'' ''case''
                        ''PRES'' False) ! 0
       = \<lparr>cell_k = 1, cell_j = 1, cell_values = [5]\<rparr>
   \<and> result_slice (CMG_rwo2npy (demo_env report_repeated_header) plain_float ''sim'' ''case''
                     ''PRES'' False ''results'' False) 0 0 0 = Inr [6]"
  by code_simp

lemma fill_cell_messages:
  "set (snd acc) \<subseteq> set (messages_of (fill_cell n t tm c acc))"
  by (auto simp: fill_cell_def Let_def messages_of_def split: sum.splits)

lemma fill_cells_messages:
  "set (snd acc) \<subseteq> set (messages_of (fill_cells n t tm cs acc))"
proof (induction cs arbitrary: acc)
  case Nil then show ?case by (simp add: messages_of_def)
next
  case (Cons c cs)
  show ?case
  proof (cases "fill_cell n t tm c acc")
    case (Inl bad)
    then show ?thesis using fill_cell_messages [of acc n t tm c] by (simp add: messages_of_def)
  next
    case (Inr acc1)
    then have "set (snd acc) \<subseteq> set (snd acc1)"
      using fill_cell_messages [of acc n t tm c] by (simp add: messages_of_def)
    then show ?thesis using Cons.IH [of acc1] Inr by auto
  qed
qed

lemma fill_steps_messages:
  "set (snd acc) \<subseteq> set (messages_of (fill_steps n t0 pd acc))"
proof (induction pd arbitrary: acc t0)
  case Nil then show ?case by (simp add: messages_of_def)
next
  case (Cons td pd)
  show ?case
  proof (cases "fill_cells n t0 (fst td) (snd td) acc")
    case (Inl bad)
    then show ?thesis using fill_cells_messages [of acc n t0 "fst td" "snd td"]
      by (simp add: messages_of_def)
  next
    case (Inr acc1)
    then have "set (snd acc) \<subseteq> set (snd acc1)"
      using fill_cells_messages [of acc n t0 "fst td" "snd td"] by (simp add: messages_of_def)
    then show ?thesis using Cons.IH [of acc1 "Suc t0"] Inr by auto
  qed
qed

lemma fill_cells_append:
  "fill_cells n t tm (xs @ ys) acc
     = (case fill_cells n t tm xs acc of Inl bad \<Rightarrow> Inl bad | Inr acc1 \<Rightarrow> fill_cells n t tm ys acc1)"
  by (induction xs arbitrary: acc) (auto split: sum.splits)

lemma fill_steps_reached:
  assumes "fill_steps n t0 (pre @ [(tm, cs1)]) acc = Inr acc1"
    and "length (cell_values c) \<noteq> n"
  shows "warning_of n tm c
           \<in> set (messages_of (fill_steps n t0 (pre @ (tm, cs1 @ c # cs2) # rest) acc))"
  using assms(1)
proof (induction pre arbitrary: acc t0)
  case Nil
  then have a: "fill_cells n t0 tm cs1 acc = Inr acc1" by (simp split: sum.splits)
  let ?acc2 = "(fst acc1, snd acc1 @ [warning_of n tm c])"
  have b: "fill_cell n t0 tm c acc1 = Inr ?acc2"
    using assms(2) by (simp add: fill_cell_def Let_def warning_of_def)
  have w: "warning_of n tm c \<in> set (snd ?acc2)" by simp
  show ?case
  proof (cases "fill_cells n t0 tm cs2 ?acc2")
    case (Inl bad)
    then show ?thesis
      using a b w fill_cells_messages [of ?acc2 n t0 tm cs2]
      by (auto simp: fill_cells_append messages_of_def)
  next
    case (Inr acc3)
    then have "warning_of n tm c \<in> set (snd acc3)"
      using w fill_cells_messages [of ?acc2 n t0 tm cs2] by (auto simp: messages_of_def)
    then show ?thesis
      using a b Inr fill_steps_messages [of acc3 n "Suc t0" rest]
      by (auto simp: fill_cells_append)
  qed
next
  case (Cons td pre)
  then show ?case by (auto split: sum.splits)
qed

lemma inferred_dims_eq:
  assumes "inferred_dims e tf folder cn pr si = (n_i, n_j, n_k, n_t)"
    and "dims_scan (committed (parsed e tf folder cn pr si)) = (ks, js, ic)"
  shows "ic = n_i" "Max js = n_j" "Max ks = n_k"
    "length (time_values (parsed e tf folder cn pr si)) = n_t"
  using assms by (simp_all add: inferred_dims_def)

lemma reached_block_warned:
  assumes ex: "path_exists e (os_path_join e folder (cn @ ''_'' @ pr @ ''.rwo''))"
    and dims: "inferred_dims e tf folder cn pr si = (n_i, n_j, n_k, n_t)"
    and pd: "committed (parsed e tf folder cn pr si) = pre @ (tm, cs1 @ c # cs2) # rest"
    and len: "length (cell_values c) \<noteq> n_i"
    and reach: "\<not> isl (fill_steps n_i 0 (pre @ [(tm, cs1)]) (zeros (n_i, n_j, n_k, n_t), []))"
  shows "Print (warning_of n_i tm c) \<in> set (fst (CMG_rwo2npy e tf folder cn pr sv sf si))"
proof -
  let ?st = "parsed e tf folder cn pr si"
  from reach obtain acc1 where
    a: "fill_steps n_i 0 (pre @ [(tm, cs1)]) (zeros (n_i, n_j, n_k, n_t), []) = Inr acc1"
    by (cases "fill_steps n_i 0 (pre @ [(tm, cs1)]) (zeros (n_i, n_j, n_k, n_t) :: 'a ndarray, [])")
       auto
  have w: "warning_of n_i tm c
             \<in> set (messages_of (fill_steps n_i 0 (committed ?st) (zeros (n_i, n_j, n_k, n_t), [])))"
    unfolding pd using a len by (rule fill_steps_reached)
  have cin: "c \<in> set (concat (map snd (committed ?st)))" by (simp add: pd)
  show ?thesis
  proof (cases rule: CMG_cases [of e folder cn pr tf sv sf si])
    case missing
    then show ?thesis using ex by simp
  next
    case (empty ks js ic)
    then show ?thesis using cin by (auto simp: dims_scan_eq)
  next
    case (index ks js ic err warnings)
    have "warning_of n_i tm c \<in> set warnings"
      using w index(5) inferred_dims_eq [OF dims index(2)] by (simp add: messages_of_def)
    then show ?thesis using index(6) by simp
  next
    case (returns ks js ic sim_results warnings)
    have "warning_of n_i tm c \<in> set warnings"
      using w returns(5) inferred_dims_eq [OF dims returns(2)] by (simp add: messages_of_def)
    then show ?thesis using returns(6) by simp
  qed
qed

text \<open>
  Claim C4, as the code has it. A block whose length differs from \<open>n_i\<close> is never written
  and never raises: the step that handles it keeps the array and appends the diagnostic.
  When an array is returned, the diagnostic of every such committed block is in the trace,
  and its slice is all zero when it exists and no block of matching length of the same time
  step addresses it; a block of matching length with the same indices fills it all the same.
  The assembly can still end with \<open>IndexError\<close> at another block. Whatever the outcome, the
  diagnostic of a short block is in the trace as soon as the loop reaches the block, that is
  when the blocks before it were handled without an exception.
\<close>

theorem short_block_is_skipped:
  "(length (cell_values c) \<noteq> n_i \<longrightarrow>
      fill_cell n_i t tm c acc = Inr (fst acc, snd acc @ [warning_of n_i tm c]))
   \<and> (result_shape (CMG_rwo2npy e to_float folder case_name property is_save save_folder show_info)
          = Some (n_i, n_j, n_k, n_time)
        \<and> t < length (committed (parsed e to_float folder case_name property show_info))
        \<and> c \<in> set (snd (committed (parsed e to_float folder case_name property show_info) ! t))
        \<and> length (cell_values c) \<noteq> n_i \<longrightarrow>
      Print (warning_of n_i
               (fst (committed (parsed e to_float folder case_name property show_info) ! t)) c)
        \<in> set (fst (CMG_rwo2npy e to_float folder case_name property is_save save_folder show_info))
      \<and> ((\<forall>c' \<in> set (snd (committed (parsed e to_float folder case_name property show_info) ! t)).
              length (cell_values c') = n_i \<longrightarrow> slot n_j n_k c' \<noteq> slot n_j n_k c)
           \<and> fst (slot n_j n_k c) \<noteq> None \<and> snd (slot n_j n_k c) \<noteq> None \<and> t < n_time \<longrightarrow>
          result_slice (CMG_rwo2npy e to_float folder case_name property is_save save_folder show_info)
            (int (cell_j c) - 1) (int (cell_k c) - 1) t = Inr (replicate n_i 0)))
   \<and> (path_exists e (os_path_join e folder (case_name @ ''_'' @ property @ ''.rwo''))
        \<and> inferred_dims e to_float folder case_name property show_info = (n_i, n_j, n_k, n_time)
        \<and> committed (parsed e to_float folder case_name property show_info)
            = pre @ (tm, cs1 @ c # cs2) # rest
        \<and> length (cell_values c) \<noteq> n_i
        \<and> \<not> isl (fill_steps n_i 0 (pre @ [(tm, cs1)]) (zeros (n_i, n_j, n_k, n_time), []))
        \<longrightarrow>
      Print (warning_of n_i tm c)
        \<in> set (fst (CMG_rwo2npy e to_float folder case_name property is_save save_folder show_info)))"
proof (intro conjI impI)
  assume "length (cell_values c) \<noteq> n_i"
  then show "fill_cell n_i t tm c acc = Inr (fst acc, snd acc @ [warning_of n_i tm c])"
    by (simp add: fill_cell_mismatch warning_of_def)
next
  let ?r = "CMG_rwo2npy e to_float folder case_name property is_save save_folder show_info"
  let ?pd = "committed (parsed e to_float folder case_name property show_info)"
  assume h: "result_shape ?r = Some (n_i, n_j, n_k, n_time) \<and> t < length ?pd
        \<and> c \<in> set (snd (?pd ! t)) \<and> length (cell_values c) \<noteq> n_i"
  from h have rs: "result_shape ?r = Some (n_i, n_j, n_k, n_time)" by simp
  from rs obtain arr ws where
    r: "snd ?r = Inr arr"
    and f: "fill_steps n_i 0 ?pd (zeros (n_i, n_j, n_k, n_time), []) = Inr (arr, ws)"
    and sh: "shape arr = (n_i, n_j, n_k, n_time)"
    and ev: "set (map Print ws) \<subseteq> set (fst ?r)"
    by (rule CMG_returns)
  have "?pd ! t \<in> set ?pd" using h by simp
  then have "warning_of n_i (fst (?pd ! t)) c \<in> set ws"
    using fill_steps_warnings [OF f] h by auto
  then show "Print (warning_of n_i (fst (?pd ! t)) c) \<in> set (fst ?r)"
    using ev by auto
next
  let ?r = "CMG_rwo2npy e to_float folder case_name property is_save save_folder show_info"
  let ?pd = "committed (parsed e to_float folder case_name property show_info)"
  assume h: "result_shape ?r = Some (n_i, n_j, n_k, n_time) \<and> t < length ?pd
        \<and> c \<in> set (snd (?pd ! t)) \<and> length (cell_values c) \<noteq> n_i"
    and g: "(\<forall>c' \<in> set (snd (?pd ! t)).
              length (cell_values c') = n_i \<longrightarrow> slot n_j n_k c' \<noteq> slot n_j n_k c)
           \<and> fst (slot n_j n_k c) \<noteq> None \<and> snd (slot n_j n_k c) \<noteq> None \<and> t < n_time"
  from h have rs: "result_shape ?r = Some (n_i, n_j, n_k, n_time)" by simp
  from rs obtain arr ws where
    r: "snd ?r = Inr arr"
    and f: "fill_steps n_i 0 ?pd (zeros (n_i, n_j, n_k, n_time), []) = Inr (arr, ws)"
    and sh: "shape arr = (n_i, n_j, n_k, n_time)"
    by (rule CMG_returns)
  from g obtain j' k' where sl: "slot n_j n_k c = (Some j', Some k')"
    by (cases "slot n_j n_k c") auto
  have z: "shape (fst (zeros (n_i, n_j, n_k, n_time) :: 'a ndarray, [] :: message list))
             = (n_i, n_j, n_k, n_time)"
    by (simp add: zeros_def)
  have "\<And>i. elems arr (i, j', k', t) = 0"
  proof -
    fix i
    have "elems (fst (arr, ws)) (i, j', k', t)
            = elems (fst (zeros (n_i, n_j, n_k, n_time) :: 'a ndarray, [] :: message list)) (i, j', k', t)"
      by (rule fill_steps_frame [OF f z]) (use g sl in auto)
    then show "elems arr (i, j', k', t) = 0" by (simp add: zeros_def)
  qed
  then have "read_slice arr (int (cell_j c) - 1) (int (cell_k c) - 1) t = Inr (replicate n_i 0)"
    using sh sl g
    by (intro read_slice_written [where j' = j' and k' = k']) (auto simp: slot_def)
  then show "result_slice ?r (int (cell_j c) - 1) (int (cell_k c) - 1) t = Inr (replicate n_i 0)"
    by (simp add: result_slice_def r)
next
  assume h: "path_exists e (os_path_join e folder (case_name @ ''_'' @ property @ ''.rwo''))
        \<and> inferred_dims e to_float folder case_name property show_info = (n_i, n_j, n_k, n_time)
        \<and> committed (parsed e to_float folder case_name property show_info)
            = pre @ (tm, cs1 @ c # cs2) # rest
        \<and> length (cell_values c) \<noteq> n_i
        \<and> \<not> isl (fill_steps n_i 0 (pre @ [(tm, cs1)]) (zeros (n_i, n_j, n_k, n_time), []))"
  show "Print (warning_of n_i tm c)
        \<in> set (fst (CMG_rwo2npy e to_float folder case_name property is_save save_folder show_info))"
    by (rule reached_block_warned [where pre = pre and ?cs1.0 = cs1 and ?cs2.0 = cs2 and rest = rest
                                   and n_j = n_j and n_k = n_k and n_t = n_time])
       (use h in simp_all)
qed

theorem short_block_is_skipped_witness:
  "map_sum id snd (fill_cell 1 0 ''0'' \<lparr>cell_k = 2, cell_j = 1, cell_values = []\<rparr>
                     (zeros (1, 1, 2, 1) :: int ndarray, []))
     = Inr [WarningExpected 1 0 2 1 ''0'']
   \<and> Print (WarningExpected 1 0 2 1 ''0'')
       \<in> set (fst (CMG_rwo2npy (demo_env report_short_block) plain_float ''sim'' ''case'' ''PRES''
                      False ''results'' False))
   \<and> result_slice (CMG_rwo2npy (demo_env report_short_block) plain_float ''sim'' ''case'' ''PRES''
                     False ''results'' False) 0 1 0 = Inr [0]
   \<and> result_error (CMG_rwo2npy (demo_env report_recommitted) plain_float ''sim'' ''case'' ''PRES''
                     False ''results'' False) = Some IndexError
   \<and> Print (WarningExpected 1 0 2 1 ''0'')
       \<in> set (fst (CMG_rwo2npy (demo_env report_recommitted) plain_float ''sim'' ''case'' ''PRES''
                      False ''results'' False))"
proof -
  let ?e = "demo_env report_short_block"
  let ?pd = "committed (parsed ?e plain_float ''sim'' ''case'' ''PRES'' False)"
  let ?c = "\<lparr>cell_k = 2, cell_j = 1, cell_values = [] :: int list\<rparr>"
  let ?full = "\<lparr>cell_k = 1, cell_j = 1, cell_values = [5 :: int]\<rparr>"
  let ?e2 = "demo_env report_recommitted"
  have a: "result_shape (CMG_rwo2npy ?e plain_float ''sim'' ''case'' ''PRES'' False ''results'' False)
             = Some (1, 1, 2, 1)"
    by code_simp
  have b: "0 < length ?pd" by code_simp
  have c: "?c \<in> set (snd (?pd ! 0))" by code_simp
  have d: "length (cell_values ?c) \<noteq> 1" by simp
  have t: "fst (?pd ! 0) = ''0''" by code_simp
  have f: "\<forall>c' \<in> set (snd (?pd ! 0)). length (cell_values c') = 1 \<longrightarrow> slot 1 2 c' \<noteq> slot 1 2 ?c"
    by code_simp
  have g: "fst (slot 1 2 ?c) \<noteq> None \<and> snd (slot 1 2 ?c) \<noteq> None" by code_simp
  have first:
    "map_sum id snd (fill_cell 1 0 ''0'' ?c (zeros (1, 1, 2, 1) :: int ndarray, []))
       = Inr [WarningExpected 1 0 2 1 ''0'']
     \<and> Print (WarningExpected 1 0 2 1 ''0'')
         \<in> set (fst (CMG_rwo2npy ?e plain_float ''sim'' ''case'' ''PRES'' False ''results'' False))
     \<and> result_slice (CMG_rwo2npy ?e plain_float ''sim'' ''case'' ''PRES'' False ''results'' False)
          0 1 0 = Inr [0]"
    using a b c d t f g
      short_block_is_skipped [where c = ?c and n_i = 1 and t = 0 and tm = "''0''"
         and acc = "(zeros (1, 1, 2, 1), [])" and e = ?e and to_float = plain_float
         and folder = "''sim''" and case_name = "''case''" and property = "''PRES''"
         and is_save = False and save_folder = "''results''" and show_info = False
         and n_j = 1 and n_k = 2 and n_time = 1 and pre = "[]" and ?cs1.0 = "[]"
         and ?cs2.0 = "[]" and rest = "[]"]
    by (simp add: warning_of_def)
  have p: "path_exists ?e2 (os_path_join ?e2 ''sim'' (''case'' @ ''_'' @ ''PRES'' @ ''.rwo''))"
    by code_simp
  have q: "inferred_dims ?e2 plain_float ''sim'' ''case'' ''PRES'' False = (1, 1, 2, 1)"
    by code_simp
  have r: "committed (parsed ?e2 plain_float ''sim'' ''case'' ''PRES'' False)
             = [] @ (''0'', [?full] @ ?c # []) # [(''0'', [?full, ?c])]"
    by code_simp
  have u: "\<not> isl (fill_steps 1 0 ([] @ [(''0'', [?full])]) (zeros (1, 1, 2, 1) :: int ndarray, []))"
    by code_simp
  have v: "result_error (CMG_rwo2npy ?e2 plain_float ''sim'' ''case'' ''PRES'' False ''results'' False)
             = Some IndexError"
    by code_simp
  have second:
    "Print (WarningExpected 1 0 2 1 ''0'')
       \<in> set (fst (CMG_rwo2npy ?e2 plain_float ''sim'' ''case'' ''PRES'' False ''results'' False))"
    using p q r d u
      short_block_is_skipped [where c = ?c and n_i = 1 and t = 0 and tm = "''0''"
         and acc = "(zeros (1, 1, 2, 1), [])" and e = ?e2 and to_float = plain_float
         and folder = "''sim''" and case_name = "''case''" and property = "''PRES''"
         and is_save = False and save_folder = "''results''" and show_info = False
         and n_j = 1 and n_k = 2 and n_time = 1 and pre = "[]" and ?cs1.0 = "[?full]"
         and ?cs2.0 = "[]" and rest = "[(''0'', [?full, ?c])]"]
    by (simp add: warning_of_def)
  show ?thesis using first second v by simp
qed

text \<open>
  The claim as written fails when a block without value repeats the indices of a full block:
  its count is zero, \<open>n_i\<close> is one, and its slice holds \<open>[5]\<close>.
\<close>

theorem matching_block_fills_skipped_slice:
  "result_shape (CMG_rwo2npy (demo_env report_short_repeat) plain_float ''sim'' ''case''
                   ''PRES'' False ''results'' False) = Some (1, 1, 1, 1)
   \<and> committed_cells (parsed (demo_env report_short_repeat) plain_float ''sim'' ''case''
                        ''PRES'' False) ! 1
       = \<lparr>cell_k = 1, cell_j = 1, cell_values = []\<rparr>
   \<and> result_slice (CMG_rwo2npy (demo_env report_short_repeat) plain_float ''sim'' ''case''
                     ''PRES'' False ''results'' False) 0 0 0 = Inr [5]"
  by code_simp


section \<open>Where the numbers of a data line go\<close>

lemma more_fields [simp]:
  "current_k (commit st) = current_k st"
  "current_j (commit st) = current_j st"
  "current_k (extend_last vs st) = current_k st"
  "current_j (extend_last vs st) = current_j st"
  by (simp_all add: commit_def extend_last_def Let_def split: option.splits)

lemma well_addressed_init: "well_addressed init_state"
  by (simp add: well_addressed_def init_state_def)

lemma well_addressed_commit: "well_addressed st \<Longrightarrow> well_addressed (commit st)"
  by (auto simp: well_addressed_def commit_def split: option.splits)

lemma well_addressed_extend: "well_addressed st \<Longrightarrow> well_addressed (extend_last vs st)"
  by (auto simp: well_addressed_def extend_last_def Let_def)

lemma well_addressed_step:
  assumes "well_addressed st"
  shows "well_addressed (process_line tf pr si st l)"
proof -
  have c: "well_addressed (commit st)" using assms by (rule well_addressed_commit)
  have t: "\<And>t d. well_addressed (commit st\<lparr>current_time := Some t,
                 time_values := time_values (commit st) @ [t],
                 time_dates := time_dates (commit st) @ [d],
                 current_data := [],
                 printed := printed (commit st) @ (if si then [ProcessingTimeStep t d] else [])\<rparr>)"
    using c by (auto simp: well_addressed_def)
  have h: "\<And>k j. well_addressed (st\<lparr>current_k := Some k, current_j := Some j,
                current_data := current_data st @ [length (heap st)],
                heap := heap st @ [\<lparr>cell_k = k, cell_j = j, cell_values = []\<rparr>]\<rparr>)"
    using assms by (auto simp: well_addressed_def less_Suc_eq)
  show ?thesis
    using assms c t h well_addressed_extend [OF assms]
    by (auto simp: process_line_def Let_def split: option.splits)
qed

lemma well_addressed_foldl:
  "well_addressed st \<Longrightarrow> well_addressed (foldl (process_line tf pr si) st ls)"
  by (induction ls arbitrary: st) (auto intro: well_addressed_step)

lemma same_visible_refl: "same_visible st st"
  by (simp add: same_visible_def)

lemma live_commit: "live (commit st) = live st"
  by (auto simp: live_def commit_def split: option.splits)

lemma same_visible_commit:
  assumes "same_visible st st'"
  shows "same_visible (commit st) (commit st')"
  using assms
  by (auto simp: same_visible_def commit_def live_def split: option.splits)

lemma same_visible_extend:
  assumes "same_visible st st'"
  shows "same_visible (extend_last vs st) (extend_last vs st')"
proof (cases "current_data st = []")
  case True
  then show ?thesis using assms by (simp add: same_visible_def)
next
  case False
  let ?a = "last (current_data st)"
  have eq: "current_data st' = current_data st" "length (heap st') = length (heap st)"
    using assms by (simp_all add: same_visible_def)
  have lv: "live (extend_last vs st) = live st"
    by (simp add: live_def)
  have "\<forall>a \<in> live st. heap (extend_last vs st') ! a = heap (extend_last vs st) ! a"
  proof
    fix a assume a: "a \<in> live st"
    then have h: "heap st' ! a = heap st ! a" using assms by (simp add: same_visible_def)
    show "heap (extend_last vs st') ! a = heap (extend_last vs st) ! a"
    proof (cases "a = ?a")
      case True
      then show ?thesis using False eq h
        by (cases "a < length (heap st)") (simp_all add: extend_last_def Let_def list_update_beyond)
    next
      case ne: False
      then show ?thesis using False eq h by (simp add: extend_last_def Let_def)
    qed
  qed
  then show ?thesis using assms lv by (simp add: same_visible_def)
qed

lemma same_visible_step:
  assumes "same_visible st st'" and "well_addressed st"
  shows "same_visible (process_line tf pr si st l) (process_line tf pr si st' l)"
proof -
  have c: "same_visible (commit st) (commit st')" using assms(1) by (rule same_visible_commit)
  have wc: "well_addressed (commit st)" using assms(2) by (rule well_addressed_commit)
  have t: "\<And>t d. same_visible
             (commit st\<lparr>current_time := Some t,
                 time_values := time_values (commit st) @ [t],
                 time_dates := time_dates (commit st) @ [d],
                 current_data := [],
                 printed := printed (commit st) @ (if si then [ProcessingTimeStep t d] else [])\<rparr>)
             (commit st'\<lparr>current_time := Some t,
                 time_values := time_values (commit st') @ [t],
                 time_dates := time_dates (commit st') @ [d],
                 current_data := [],
                 printed := printed (commit st') @ (if si then [ProcessingTimeStep t d] else [])\<rparr>)"
    using c by (auto simp: same_visible_def live_def)
  have h: "\<And>k j. same_visible
             (st\<lparr>current_k := Some k, current_j := Some j,
                current_data := current_data st @ [length (heap st)],
                heap := heap st @ [\<lparr>cell_k = k, cell_j = j, cell_values = []\<rparr>]\<rparr>)
             (st'\<lparr>current_k := Some k, current_j := Some j,
                current_data := current_data st' @ [length (heap st')],
                heap := heap st' @ [\<lparr>cell_k = k, cell_j = j, cell_values = []\<rparr>]\<rparr>)"
    using assms by (auto simp: same_visible_def live_def well_addressed_def nth_append split: if_splits)
  show ?thesis
    using assms(1) c t h same_visible_extend [OF assms(1)]
    by (auto simp: process_line_def Let_def split: option.splits)
qed

lemma same_visible_well_addressed:
  "same_visible st st' \<Longrightarrow> well_addressed st \<Longrightarrow> well_addressed st'"
  by (simp add: same_visible_def well_addressed_def)

lemma same_visible_foldl:
  "same_visible st st' \<Longrightarrow> well_addressed st \<Longrightarrow>
   same_visible (foldl (process_line tf pr si) st ls) (foldl (process_line tf pr si) st' ls)"
proof (induction ls arbitrary: st st')
  case Nil then show ?case by simp
next
  case (Cons l ls)
  show ?case
    using Cons.IH [OF same_visible_step [OF Cons.prems] well_addressed_step [OF Cons.prems(2)]]
    by simp
qed

lemma same_visible_committed:
  assumes "same_visible st st'"
  shows "committed st' = committed st"
proof -
  have "\<And>td. td \<in> set (pressure_data st) \<Longrightarrow> cells_of st' td = cells_of st td"
    using assms by (auto simp: same_visible_def live_def cells_of_def)
  then show ?thesis using assms by (simp add: committed_def same_visible_def)
qed

lemma same_visible_skipped:
  assumes "\<not> startswith (strip l) ''**  TIME =''" and "\<not> startswith (strip l) ''** K =''"
    and "well_addressed st"
    and "current_data st = [] \<or> current_time st = None"
  shows "same_visible st (process_line tf pr si st l)"
proof -
  have "\<And>vs. same_visible st (extend_last vs st)"
  proof -
    fix vs
    show "same_visible st (extend_last vs st)"
    proof (cases "current_data st = []")
      case True
      then show ?thesis by (simp add: same_visible_refl)
    next
      case False
      then have "live st = {}"
        using assms(3,4) by (auto simp: live_def well_addressed_def)
      then show ?thesis by (simp add: same_visible_def)
    qed
  qed
  then show ?thesis
    using assms(1,2) by (auto simp: process_line_def Let_def same_visible_refl split: option.splits)
qed

lemma skipped_line_scan:
  assumes "\<not> startswith (strip l) ''**  TIME =''" and "\<not> startswith (strip l) ''** K =''"
    and "current_data (foldl (process_line tf pr si) init_state pre) = []
         \<or> current_time (foldl (process_line tf pr si) init_state pre) = None"
  shows "same_visible (scan tf pr si (pre @ post)) (scan tf pr si (pre @ l # post))"
proof -
  let ?st = "foldl (process_line tf pr si) init_state pre"
  have w: "well_addressed ?st" by (intro well_addressed_foldl well_addressed_init)
  have "same_visible ?st (process_line tf pr si ?st l)"
    using assms(1,2) w assms(3) by (rule same_visible_skipped)
  then have "same_visible (foldl (process_line tf pr si) ?st post)
               (foldl (process_line tf pr si) (process_line tf pr si ?st l) post)"
    using w by (rule same_visible_foldl)
  then show ?thesis
    by (simp add: scan_def same_visible_commit)
qed

lemma process_line_heap:
  assumes "a < length (heap st)"
  shows "cell_k (heap (process_line tf pr si st l) ! a) = cell_k (heap st ! a)
       \<and> cell_j (heap (process_line tf pr si st l) ! a) = cell_j (heap st ! a)
       \<and> (\<exists>vs. cell_values (heap (process_line tf pr si st l) ! a) = cell_values (heap st ! a) @ vs
               \<and> (vs \<noteq> [] \<longrightarrow> current_data st \<noteq> [] \<and> a = last (current_data st)))"
proof -
  have e: "\<And>vs. cell_k (heap (extend_last vs st) ! a) = cell_k (heap st ! a)
       \<and> cell_j (heap (extend_last vs st) ! a) = cell_j (heap st ! a)
       \<and> (\<exists>ws. cell_values (heap (extend_last vs st) ! a) = cell_values (heap st ! a) @ ws
               \<and> (ws \<noteq> [] \<longrightarrow> current_data st \<noteq> [] \<and> a = last (current_data st)))"
    using assms by (cases "a = last (current_data st)") (auto simp: extend_last_def Let_def)
  show ?thesis
    using assms e
    by (auto simp: process_line_def Let_def nth_append split: option.splits)
qed

lemma CMG_same_visible_env:
  assumes "same_visible (scan tf pr si (report_lines e' folder cn pr))
                        (scan tf pr si (report_lines e folder cn pr))"
    and "path_exists e' = path_exists e" and "os_path_join e' = os_path_join e"
    and "path_str e' = path_str e" and "path_div e' = path_div e"
  shows "CMG_rwo2npy e tf folder cn pr sv sf si = CMG_rwo2npy e' tf folder cn pr sv sf si"
proof -
  let ?p = "os_path_join e folder (cn @ ''_'' @ pr @ ''.rwo'')"
  have a: "committed (scan tf pr si (read_lines e ?p)) = committed (scan tf pr si (read_lines e' ?p))"
    using same_visible_committed [OF assms(1)] assms(3) by (simp add: report_lines_def)
  have b: "time_values (scan tf pr si (read_lines e ?p)) = time_values (scan tf pr si (read_lines e' ?p))"
    and c: "printed (scan tf pr si (read_lines e ?p)) = printed (scan tf pr si (read_lines e' ?p))"
    using assms(1,3) by (simp_all add: report_lines_def same_visible_def)
  show ?thesis
    unfolding CMG_rwo2npy_def Let_def assms(2-5) by (simp only: a b c)
qed

lemma CMG_same_visible:
  assumes "report_lines e folder cn pr = ls"
    and "same_visible (scan tf pr si ls') (scan tf pr si ls)"
  shows "CMG_rwo2npy e tf folder cn pr sv sf si
           = CMG_rwo2npy (e\<lparr>read_lines := \<lambda>_. ls'\<rparr>) tf folder cn pr sv sf si"
  by (rule CMG_same_visible_env) (use assms in \<open>simp_all add: report_lines_def\<close>)

text \<open>
  Claim C10. One line of the report leaves every cell block of the store as it is, except
  that values may be appended to the last block of \<open>current_data\<close>, the block opened most
  recently. A line that is neither a time marker nor a header changes nothing at all when
  \<open>current_data\<close> is empty, that is before the first header of a time step. And when such a
  line is met with \<open>current_data\<close> empty or before any time marker was matched, the stage
  ends exactly as it does on the report without that line: same trace, same array or same
  exception.
\<close>

theorem values_only_reach_open_block:
  "(\<forall>a < length (heap st).
      cell_k (heap (process_line to_float property show_info st l) ! a) = cell_k (heap st ! a)
      \<and> cell_j (heap (process_line to_float property show_info st l) ! a) = cell_j (heap st ! a)
      \<and> (\<exists>vs. cell_values (heap (process_line to_float property show_info st l) ! a)
                 = cell_values (heap st ! a) @ vs
               \<and> (vs \<noteq> [] \<longrightarrow> current_data st \<noteq> [] \<and> a = last (current_data st))))
   \<and> (\<not> startswith (strip l) ''**  TIME ='' \<and> \<not> startswith (strip l) ''** K =''
        \<and> current_data st = [] \<longrightarrow>
      process_line to_float property show_info st l = st)
   \<and> (report_lines e folder case_name property = pre @ l # post
        \<and> \<not> startswith (strip l) ''**  TIME ='' \<and> \<not> startswith (strip l) ''** K =''
        \<and> (current_data (foldl (process_line to_float property show_info) init_state pre) = []
             \<or> current_time (foldl (process_line to_float property show_info) init_state pre) = None)
        \<longrightarrow>
      CMG_rwo2npy e to_float folder case_name property is_save save_folder show_info
        = CMG_rwo2npy (e\<lparr>read_lines := \<lambda>_. pre @ post\<rparr>) to_float folder case_name property
            is_save save_folder show_info)"
proof (intro conjI allI impI)
  fix a assume "a < length (heap st)"
  then show "cell_k (heap (process_line to_float property show_info st l) ! a) = cell_k (heap st ! a)"
    and "cell_j (heap (process_line to_float property show_info st l) ! a) = cell_j (heap st ! a)"
    and "\<exists>vs. cell_values (heap (process_line to_float property show_info st l) ! a)
                 = cell_values (heap st ! a) @ vs
               \<and> (vs \<noteq> [] \<longrightarrow> current_data st \<noteq> [] \<and> a = last (current_data st))"
    using process_line_heap [of a st to_float property show_info l] by blast+
next
  assume "\<not> startswith (strip l) ''**  TIME ='' \<and> \<not> startswith (strip l) ''** K =''
        \<and> current_data st = []"
  then show "process_line to_float property show_info st l = st"
    by (auto simp: process_line_def Let_def split: option.splits)
next
  assume h: "report_lines e folder case_name property = pre @ l # post
        \<and> \<not> startswith (strip l) ''**  TIME ='' \<and> \<not> startswith (strip l) ''** K =''
        \<and> (current_data (foldl (process_line to_float property show_info) init_state pre) = []
             \<or> current_time (foldl (process_line to_float property show_info) init_state pre) = None)"
  then have "same_visible (scan to_float property show_info (pre @ post))
               (scan to_float property show_info (pre @ l # post))"
    by (intro skipped_line_scan) auto
  with h show "CMG_rwo2npy e to_float folder case_name property is_save save_folder show_info
        = CMG_rwo2npy (e\<lparr>read_lines := \<lambda>_. pre @ post\<rparr>) to_float folder case_name property
            is_save save_folder show_info"
    by (intro CMG_same_visible) auto
qed

theorem values_only_reach_open_block_witness:
  "cell_k (heap (process_line plain_float ''PRES'' False
                   (foldl (process_line plain_float ''PRES'' False) init_state
                      [''**  TIME = 0 a'', ''** K = 1, J = 1'']) ''5 6'') ! 0)
     = cell_k (heap (foldl (process_line plain_float ''PRES'' False) init_state
                      [''**  TIME = 0 a'', ''** K = 1, J = 1'']) ! 0)
   \<and> process_line plain_float ''PRES'' False init_state ''5 6'' = init_state
   \<and> CMG_rwo2npy (demo_env report_stray_values) plain_float ''sim'' ''case'' ''PRES'' False
        ''results'' False
     = CMG_rwo2npy (demo_env report_stray_values
                      \<lparr>read_lines := \<lambda>_. [''** K = 3, J = 3''] @
                         [''**  TIME = 0 a'', ''3'', ''** K = 1, J = 1'', ''5'']\<rparr>)
         plain_float ''sim'' ''case'' ''PRES'' False ''results'' False
   \<and> CMG_rwo2npy (demo_env report_stray_values) plain_float ''sim'' ''case'' ''PRES'' False
        ''results'' False
     = CMG_rwo2npy (demo_env report_stray_values
                      \<lparr>read_lines := \<lambda>_. [''** K = 3, J = 3'', ''9 9 9'', ''**  TIME = 0 a''] @
                         [''** K = 1, J = 1'', ''5'']\<rparr>)
         plain_float ''sim'' ''case'' ''PRES'' False ''results'' False"
proof -
  let ?f = "process_line plain_float ''PRES'' False"
  let ?S = "foldl ?f init_state [''**  TIME = 0 a'', ''** K = 1, J = 1'']"
  have a: "0 < length (heap ?S)" by code_simp
  have b: "\<not> startswith (strip ''5 6'') ''**  TIME ='' \<and> \<not> startswith (strip ''5 6'') ''** K =''
           \<and> current_data (init_state :: int pstate) = []"
    by code_simp
  have c: "report_lines (demo_env report_stray_values) ''sim'' ''case'' ''PRES''
             = [''** K = 3, J = 3''] @ ''9 9 9'' # [''**  TIME = 0 a'', ''3'', ''** K = 1, J = 1'', ''5'']
           \<and> \<not> startswith (strip ''9 9 9'') ''**  TIME ='' \<and> \<not> startswith (strip ''9 9 9'') ''** K =''
           \<and> (current_data (foldl ?f init_state [''** K = 3, J = 3'']) = []
                \<or> current_time (foldl ?f init_state [''** K = 3, J = 3'']) = None)"
    by code_simp
  have d: "report_lines (demo_env report_stray_values) ''sim'' ''case'' ''PRES''
             = [''** K = 3, J = 3'', ''9 9 9'', ''**  TIME = 0 a''] @ ''3'' # [''** K = 1, J = 1'', ''5'']
           \<and> \<not> startswith (strip ''3'') ''**  TIME ='' \<and> \<not> startswith (strip ''3'') ''** K =''
           \<and> (current_data (foldl ?f init_state [''** K = 3, J = 3'', ''9 9 9'', ''**  TIME = 0 a'']) = []
                \<or> current_time (foldl ?f init_state [''** K = 3, J = 3'', ''9 9 9'', ''**  TIME = 0 a'']) = None)"
    by code_simp
  show ?thesis
    using a b c d
      values_only_reach_open_block [where st = ?S and l = "''5 6''" and to_float = plain_float
         and property = "''PRES''" and show_info = False and pre = "[]" and post = "[]"
         and e = "demo_env []" and folder = "''sim''" and case_name = "''case''"]
      values_only_reach_open_block [where st = init_state and l = "''5 6''" and to_float = plain_float
         and property = "''PRES''" and show_info = False and pre = "[]" and post = "[]"
         and e = "demo_env []" and folder = "''sim''" and case_name = "''case''"]
      values_only_reach_open_block [where st = init_state and l = "''9 9 9''" and to_float = plain_float
         and property = "''PRES''" and show_info = False and pre = "[''** K = 3, J = 3'']"
         and post = "[''**  TIME = 0 a'', ''3'', ''** K = 1, J = 1'', ''5'']"
         and e = "demo_env report_stray_values" and folder = "''sim''" and case_name = "''case''"
         and is_save = False and save_folder = "''results''"]
      values_only_reach_open_block [where st = init_state and l = "''3''" and to_float = plain_float
         and property = "''PRES''" and show_info = False
         and pre = "[''** K = 3, J = 3'', ''9 9 9'', ''**  TIME = 0 a'']"
         and post = "[''** K = 1, J = 1'', ''5'']"
         and e = "demo_env report_stray_values" and folder = "''sim''" and case_name = "''case''"
         and is_save = False and save_folder = "''results''"]
    by blast
qed


end
